theory Spec2Isabelle
  imports Complex_Main "HOL-Library.Word"
begin

section \<open>The transactional data block (package tables, type dataBlock)\<close>

text \<open>
  The development follows the Go source of the block object: each source function is
  embedded as a HOL function of the same name over the part of the block it reads.
  Types and methods of other packages (catalog, updates, indexwrapper, file) are not
  part of the sources at hand; where a function of the block only reads the result of
  such a method, the result is a field of the record the function takes, named after
  the method.
\<close>

subsection \<open>Errors\<close>

text \<open>
  The error values the block compares against or returns. \<open>ErrIO\<close> stands for any
  other error of a collaborator (a file or buffer error), \<open>GoPanic\<close> for a run-time
  panic of the Go program (a nil dereference, an index out of range).
\<close>

datatype error =
    ErrNotFound
  | ErrDuplicate
  | ErrPossibleDuplicate
  | ErrUpdateHiddenKey
  | TxnInternalErr
  | TxnWWConflictErr
  | ErrIO string
  | GoPanic

subsection \<open>Catalog entry of a block\<close>

text \<open>
  Of the schema: the column definitions (their names), the row capacity of a block, the
  column indices of the sort key (\<open>None\<close> for a nil \<open>SortKey\<close>) and the index of the
  hidden-key column.
\<close>

record Schema =
  ColDefs :: "string list"
  BlockMaxRows :: "32 word"
  SortKey :: "nat list option"
  HiddenKey :: nat

record BlockEntry =
  GetSchema :: Schema
  IsAppendable :: bool
  IsDroppedCommitted :: bool
  IsDroppedUncommitted :: bool
  HasActiveTxn :: bool
  AsCommonID :: nat

subsection \<open>Scoring and the compaction driver\<close>

text \<open>
  What the scoring functions read of the MVCC handle: the results of
  \<open>GetChangeNodeCnt\<close>, \<open>LoadMaxVisible\<close>, \<open>GetColumnUpdateCnt\<close> and \<open>GetDeleteCnt\<close>.
  The counters are unsigned in the source and only converted to \<open>float64\<close> or compared
  with 0, so they are natural numbers here.
\<close>

record MVCCCounters =
  GetChangeNodeCnt :: nat
  LoadMaxVisible :: "64 word"
  GetColumnUpdateCnt :: "nat \<Rightarrow> nat"
  GetDeleteCnt :: nat

text \<open>
  The block as the scoring functions see it. \<open>node_Rows\<close> is the result of
  \<open>blk.node.Rows(nil, true)\<close> and \<open>file_ReadRows\<close> that of \<open>blk.file.ReadRows()\<close>.
\<close>

record dataBlock =
  meta :: BlockEntry
  node_Rows :: "32 word"
  file_ReadRows :: "32 word"
  mvcc :: MVCCCounters
  nice :: "32 word"
  ckpTs :: "64 word"

definition Rows :: "dataBlock \<Rightarrow> int" where
  "Rows blk =
     (if IsAppendable (meta blk) then uint (node_Rows blk) else uint (file_ReadRows blk))"

definition GetMaxCheckpointTS :: "dataBlock \<Rightarrow> 64 word" where
  "GetMaxCheckpointTS blk = ckpTs blk"

subsubsection \<open>The type float64\<close>

text \<open>
  The score is computed in \<open>float64\<close>. A finite \<open>float64\<close> is the rational number it
  denotes; \<open>None\<close> stands for the values that are not finite (an infinity or NaN).
  \<open>f64\<close> rounds a rational to the nearest double, ties to the even significand, as
  every IEEE 754 operation and every conversion of Go does: the significand has 53
  bits, the exponent of the last place is at least \<open>-1074\<close> (the subnormal numbers),
  and what rounds to \<open>2 ^ 1024\<close> or beyond overflows to an infinity.
\<close>

type_synonym float64 = "rat option"

text \<open>The number of binary digits of a positive integer.\<close>

function bit_length :: "int \<Rightarrow> nat" where
  "bit_length n = (if n \<le> 0 then 0 else Suc (bit_length (n div 2)))"
  by auto

termination
  by (relation "measure nat") auto

declare bit_length.simps [simp del]

definition pow2 :: "int \<Rightarrow> rat" where
  "pow2 k = (if 0 \<le> k then 2 ^ nat k else 1 / 2 ^ nat (- k))"

text \<open>The binary exponent \<open>e\<close> of a positive rational \<open>x\<close>: \<open>2 ^ e \<le> x < 2 ^ (e + 1)\<close>.\<close>

definition f64_exponent :: "rat \<Rightarrow> int" where
  "f64_exponent x =
     (if 1 \<le> x then int (bit_length \<lfloor>x\<rfloor>) - 1
      else - int (bit_length (\<lceil>1 / x\<rceil> - 1)))"

text \<open>Rounding to the nearest integer, a tie to the even one.\<close>

definition round_even :: "rat \<Rightarrow> int" where
  "round_even m =
     (let n = \<lfloor>m\<rfloor>; d = m - of_int n
      in if d < 1 / 2 then n else if 1 / 2 < d then n + 1
         else if even n then n else n + 1)"

definition f64 :: "rat \<Rightarrow> float64" where
  "f64 x =
     (if x = 0 then Some 0
      else
        let a = \<bar>x\<bar>;
            t = max (f64_exponent a - 52) (- 1074);
            r = of_int (round_even (a / pow2 t)) * pow2 t
        in if pow2 1024 \<le> r then None else Some (if x < 0 then - r else r))"

text \<open>
  The operations of the score. On finite operands the result is the exact result
  rounded; a division by zero gives an infinity or NaN. An operand that is not finite
  gives a result that is not finite: the score adds, multiplies and divides such a
  value by finite ones only (its divisors are converted integers). Every operation is
  rounded on its own: the fused multiply-add that Go permits an implementation to use
  for \<open>x * y + z\<close> is not modelled.
\<close>

definition f64_add :: "float64 \<Rightarrow> float64 \<Rightarrow> float64" where
  "f64_add a b = (case (a, b) of (Some x, Some y) \<Rightarrow> f64 (x + y) | _ \<Rightarrow> None)"

definition f64_mul :: "float64 \<Rightarrow> float64 \<Rightarrow> float64" where
  "f64_mul a b = (case (a, b) of (Some x, Some y) \<Rightarrow> f64 (x * y) | _ \<Rightarrow> None)"

definition f64_div :: "float64 \<Rightarrow> float64 \<Rightarrow> float64" where
  "f64_div a b =
     (case (a, b) of
        (Some x, Some y) \<Rightarrow> if y = 0 then None else f64 (x / y)
      | _ \<Rightarrow> None)"

text \<open>A value that is finite and lies between 0 and a bound.\<close>

definition f64_within :: "float64 \<Rightarrow> rat \<Rightarrow> bool" where
  "f64_within a B = (case a of None \<Rightarrow> False | Some y \<Rightarrow> 0 \<le> y \<and> y \<le> B)"

subsubsection \<open>The raw score\<close>

text \<open>
  \<open>colFactor_branch\<close> is the if-chain of the loop body on a finite \<open>colFactor\<close>, in the
  order of the source, with the exact product: \<open>col_step\<close> rounds it. The constants
  \<open>0.005\<close> and \<open>0.10\<close> of the source are the doubles nearest to \<open>5/1000\<close> and
  \<open>10/100\<close>; they lie above these rationals with no double in between, so that a
  double compares with the rational as it compares with the constant.
\<close>

definition colFactor_branch :: "rat \<Rightarrow> rat" where
  "colFactor_branch colFactor =
     (if colFactor < 5 / 1000 then colFactor * 10
      else if colFactor \<ge> 5 / 1000 \<and> colFactor < 10 / 100 then colFactor * 20
      else if colFactor \<ge> 10 / 100 then colFactor * 40
      else colFactor)"

text \<open>
  One iteration of \<open>for i := range ColDefs\<close>: the state is \<open>(cols, factor)\<close>. The
  column index is passed as \<open>uint16(i)\<close>. A \<open>colFactor\<close> that is not finite stays so
  in every branch of the if-chain.
\<close>

definition col_step :: "dataBlock \<Rightarrow> int \<Rightarrow> nat \<Rightarrow> nat \<times> float64 \<Rightarrow> nat \<times> float64" where
  "col_step blk rows i st =
     (case st of (cols, factor) \<Rightarrow>
        let cols = cols + 1;
            cnt = GetColumnUpdateCnt (mvcc blk) (unat (word_of_nat i :: 16 word));
            colFactor = f64_div (f64 (of_nat cnt)) (f64 (of_int rows));
            colFactor = (case colFactor of
                           None \<Rightarrow> None
                         | Some x \<Rightarrow> f64 (colFactor_branch x));
            factor = f64_add factor colFactor
        in (cols, factor))"

text \<open>Go's conversion \<open>int(x)\<close> of a finite float: truncation towards zero.\<close>

definition go_int :: "rat \<Rightarrow> int" where
  "go_int x = (if x \<ge> 0 then \<lfloor>x\<rfloor> else - \<lfloor>- x\<rfloor>)"

text \<open>
  \<open>estimateRawScore\<close>. Go leaves the conversion to \<open>int\<close> of a value that is not
  finite (which a block without a row or without a column gives, by a division by
  zero) or that does not fit the 64 bits of \<open>int\<close> to the implementation: the model
  returns \<open>None\<close> there.
\<close>

definition estimateRawScore :: "dataBlock \<Rightarrow> int option" where
  "estimateRawScore blk =
     (if Rows blk = uint (BlockMaxRows (GetSchema (meta blk))) \<and> IsAppendable (meta blk)
      then Some 100
      else if GetChangeNodeCnt (mvcc blk) = 0 \<and> \<not> IsAppendable (meta blk) then Some 0
      else if GetChangeNodeCnt (mvcc blk) = 0 \<and> IsAppendable (meta blk) \<and>
              LoadMaxVisible (mvcc blk) \<le> GetMaxCheckpointTS blk then Some 0
      else
        let rows = Rows blk;
            (cols, factor) =
               fold (col_step blk rows) [0 ..< length (ColDefs (GetSchema (meta blk)))]
                 (0, f64 0);
            factor = f64_div factor (f64 (of_nat cols));
            deleteCnt = GetDeleteCnt (mvcc blk);
            factor = f64_add factor
                       (f64_mul (f64_div (f64 (of_nat deleteCnt)) (f64 (of_int rows))) (f64 50))
        in case f64_mul factor (f64 100) of
             None \<Rightarrow> None
           | Some x \<Rightarrow>
               if go_int x < - (2 ^ 63) \<or> 2 ^ 63 \<le> go_int x then None
               else
                 let ret = 0 + go_int x
                 in Some (if ret = 0 then ret + 1 else ret))"

text \<open>\<open>RunCalibration\<close> and \<open>resetNice\<close>: the atomic operations on the 32-bit \<open>nice\<close>.\<close>

definition resetNice :: "dataBlock \<Rightarrow> dataBlock" where
  "resetNice blk = blk\<lparr>nice := 0\<rparr>"

definition RunCalibration :: "dataBlock \<Rightarrow> dataBlock option" where
  "RunCalibration blk =
     (case estimateRawScore blk of
        None \<Rightarrow> None
      | Some score \<Rightarrow> Some (if score = 0 then blk else blk\<lparr>nice := nice blk + 1\<rparr>))"

text \<open>\<open>EstimateScore\<close> returns the score and the block (whose \<open>nice\<close> it may reset).\<close>

definition EstimateScore :: "dataBlock \<Rightarrow> (int \<times> dataBlock) option" where
  "EstimateScore blk =
     (if IsAppendable (meta blk) \<and> Rows blk = uint (BlockMaxRows (GetSchema (meta blk)))
      then
        (if IsDroppedCommitted (meta blk) \<or> IsDroppedUncommitted (meta blk)
         then Some (0, blk)
         else Some (100, blk))
      else
        (case estimateRawScore blk of
           None \<Rightarrow> None
         | Some score \<Rightarrow>
             if score = 0 then Some (0, resetNice blk)
             else Some (score + uint (nice blk), blk)))"

text \<open>
  \<open>BuildCompactionTaskFactory\<close>. The two task factories of package jobs are
  constructors; a nil factory is \<open>None\<close>. The task type is \<open>DataCompactionTask\<close> where
  the source assigns it and the zero value otherwise.
\<close>

datatype TxnTaskFactory = CompactBlockTaskFactory nat | CompactABlockTaskFactory nat

datatype TaskType = NoopTask | DataCompactionTask

record CompactionPlan =
  factory :: "TxnTaskFactory option"
  taskType :: TaskType
  scopes :: "nat list"

definition BuildCompactionTaskFactory :: "dataBlock \<Rightarrow> CompactionPlan" where
  "BuildCompactionTaskFactory blk =
     (let dropped = IsDroppedCommitted (meta blk);
          inTxn = HasActiveTxn (meta blk)
      in if dropped \<or> inTxn
         then \<lparr>factory = None, taskType = NoopTask, scopes = []\<rparr>
         else
           let (f, t) =
                (if \<not> IsAppendable (meta blk) \<or>
                    (IsAppendable (meta blk) \<and>
                     Rows blk = uint (BlockMaxRows (GetSchema (meta blk))))
                 then (Some (CompactBlockTaskFactory (AsCommonID (meta blk))), DataCompactionTask)
                 else if IsAppendable (meta blk)
                 then (Some (CompactABlockTaskFactory (AsCommonID (meta blk))), DataCompactionTask)
                 else (None, NoopTask))
           in \<lparr>factory = f, taskType = t, scopes = [] @ [AsCommonID (meta blk)]\<rparr>)"

subsubsection \<open>The score as the specification words it\<close>

text \<open>
  The specification's \<open>piecewise\<close> and \<open>factor\<close>, written from its sentences and not
  from the source: the mean over the columns of \<open>piecewise\<close> of the column's update
  ratio, plus fifty times the delete ratio. \<open>spec_factor\<close> is the formula in exact
  arithmetic.
\<close>

definition piecewise :: "rat \<Rightarrow> rat" where
  "piecewise r = (if r < 5 / 1000 then 10 * r else if r < 10 / 100 then 20 * r else 40 * r)"

definition spec_factor :: "dataBlock \<Rightarrow> rat" where
  "spec_factor blk =
     (\<Sum>i < length (ColDefs (GetSchema (meta blk))).
         piecewise (of_nat (GetColumnUpdateCnt (mvcc blk) i) / of_int (Rows blk)))
       / of_nat (length (ColDefs (GetSchema (meta blk))))
     + of_nat (GetDeleteCnt (mvcc blk)) / of_int (Rows blk) * 50"

text \<open>
  The same formula evaluated in \<open>float64\<close>: every quotient, product and sum is
  rounded, and the columns are summed in their order. \<open>spec_score\<close> is
  \<open>max(1, trunc(factor \<times> 100))\<close> of it.
\<close>

definition f64_sum :: "float64 list \<Rightarrow> float64" where
  "f64_sum xs = foldl f64_add (f64 0) xs"

definition piecewise_f64 :: "float64 \<Rightarrow> float64" where
  "piecewise_f64 r = (case r of None \<Rightarrow> None | Some x \<Rightarrow> f64 (piecewise x))"

definition update_ratio :: "dataBlock \<Rightarrow> nat \<Rightarrow> float64" where
  "update_ratio blk i =
     f64_div (f64 (of_nat (GetColumnUpdateCnt (mvcc blk) i))) (f64 (of_int (Rows blk)))"

definition delete_ratio :: "dataBlock \<Rightarrow> float64" where
  "delete_ratio blk = f64_div (f64 (of_nat (GetDeleteCnt (mvcc blk)))) (f64 (of_int (Rows blk)))"

definition spec_factor_f64 :: "dataBlock \<Rightarrow> float64" where
  "spec_factor_f64 blk =
     f64_add
       (f64_div
          (f64_sum (map (\<lambda>i. piecewise_f64 (update_ratio blk i))
                      [0 ..< length (ColDefs (GetSchema (meta blk)))]))
          (f64 (of_nat (length (ColDefs (GetSchema (meta blk)))))))
       (f64_mul (delete_ratio blk) (f64 50))"

definition spec_score :: "dataBlock \<Rightarrow> int option" where
  "spec_score blk =
     (case f64_mul (spec_factor_f64 blk) (f64 100) of
        None \<Rightarrow> None
      | Some x \<Rightarrow> if 2 ^ 63 \<le> go_int x then None else Some (max 1 (go_int x)))"

subsubsection \<open>Example blocks\<close>

text \<open>An appendable block of at most four rows that holds four rows.\<close>

definition full_blk :: dataBlock where
  "full_blk =
     \<lparr>meta = \<lparr>GetSchema = \<lparr>ColDefs = [''pk'', ''v''], BlockMaxRows = 4,
                          SortKey = Some [0], HiddenKey = 2\<rparr>,
              IsAppendable = True, IsDroppedCommitted = False, IsDroppedUncommitted = False,
              HasActiveTxn = False, AsCommonID = 1\<rparr>,
      node_Rows = 4, file_ReadRows = 0,
      mvcc = \<lparr>GetChangeNodeCnt = 0, LoadMaxVisible = 100,
              GetColumnUpdateCnt = (\<lambda>_. 0), GetDeleteCnt = 0\<rparr>,
      nice = 3, ckpTs = 0\<rparr>"

text \<open>The same block with two rows.\<close>

definition half_blk :: dataBlock where
  "half_blk = full_blk\<lparr>node_Rows := 2\<rparr>"

text \<open>An immutable block of four rows on disk, without changes.\<close>

definition sealed_blk :: dataBlock where
  "sealed_blk =
     full_blk\<lparr>meta := (meta full_blk)\<lparr>IsAppendable := False\<rparr>,
              node_Rows := 0, file_ReadRows := 4\<rparr>"

text \<open>
  An appendable block of sixteen rows out of thirty-two with one column, no update
  and three deleted rows. Every \<open>float64\<close> operation of the score is exact on it:
  \<open>3/16\<close>, \<open>9.375\<close> and \<open>937.5\<close> are binary fractions.
\<close>

definition deleted3_blk :: dataBlock where
  "deleted3_blk =
     \<lparr>meta = \<lparr>GetSchema = \<lparr>ColDefs = [''v''], BlockMaxRows = 32,
                          SortKey = None, HiddenKey = 1\<rparr>,
              IsAppendable = True, IsDroppedCommitted = False, IsDroppedUncommitted = False,
              HasActiveTxn = False, AsCommonID = 2\<rparr>,
      node_Rows = 16, file_ReadRows = 0,
      mvcc = \<lparr>GetChangeNodeCnt = 1, LoadMaxVisible = 100,
              GetColumnUpdateCnt = (\<lambda>_. 0), GetDeleteCnt = 3\<rparr>,
      nice = 7, ckpTs = 50\<rparr>"

text \<open>
  An appendable block of two hundred rows with one column that carries one update:
  the update ratio is \<open>1/200 = 0.005\<close>.
\<close>

definition ratio005_blk :: dataBlock where
  "ratio005_blk =
     \<lparr>meta = \<lparr>GetSchema = \<lparr>ColDefs = [''v''], BlockMaxRows = 1000,
                          SortKey = None, HiddenKey = 1\<rparr>,
              IsAppendable = True, IsDroppedCommitted = False, IsDroppedUncommitted = False,
              HasActiveTxn = False, AsCommonID = 3\<rparr>,
      node_Rows = 200, file_ReadRows = 0,
      mvcc = \<lparr>GetChangeNodeCnt = 1, LoadMaxVisible = 100,
              GetColumnUpdateCnt = (\<lambda>_. 1), GetDeleteCnt = 0\<rparr>,
      nice = 0, ckpTs = 50\<rparr>"

text \<open>The full block of above, dropped by a transaction that has not committed yet.\<close>

definition full_dropped_blk :: dataBlock where
  "full_dropped_blk = full_blk\<lparr>meta := (meta full_blk)\<lparr>IsDroppedUncommitted := True\<rparr>\<rparr>"

text \<open>
  An appendable block of a thousand rows with one column that carries eleven updates.
  In \<open>float64\<close> the update ratio \<open>11/1000\<close>, times 20, times 100 is
  \<open>21.999999999999996\<close>; in exact arithmetic it is 22.
\<close>

definition upd11_blk :: dataBlock where
  "upd11_blk =
     \<lparr>meta = \<lparr>GetSchema = \<lparr>ColDefs = [''v''], BlockMaxRows = 2000,
                          SortKey = None, HiddenKey = 1\<rparr>,
              IsAppendable = True, IsDroppedCommitted = False, IsDroppedUncommitted = False,
              HasActiveTxn = False, AsCommonID = 6\<rparr>,
      node_Rows = 1000, file_ReadRows = 0,
      mvcc = \<lparr>GetChangeNodeCnt = 1, LoadMaxVisible = 100,
              GetColumnUpdateCnt = (\<lambda>_. 11), GetDeleteCnt = 0\<rparr>,
      nice = 0, ckpTs = 50\<rparr>"

subsection \<open>Point lookup by primary key\<close>

datatype FilterOp = FilterEq | FilterBatchEq

record 'k Filter =
  Op :: FilterOp
  Val :: 'k

text \<open>
  The block as \<open>GetByFilter\<close> sees it. Every call into another package is a field that
  gives the call's results, a pair where the Go method returns two values:
  \<open>index.Dedup\<close>, \<open>index.GetActiveRow\<close>, \<open>index.IsKeyDeleted\<close> (deleted, existed),
  \<open>mvcc.IsVisibleLocked\<close>, \<open>mvcc.IsDeletedLocked\<close>,
  \<open>GetSingleSortKeyIdx\<close> of the schema, the column that
  \<open>getVectorWrapper\<close> reads from the column file, \<open>compute.CheckRowExists\<close> (on a nil
  delete mask) and \<open>model.DecodeHiddenKeyFromValue\<close> (its row offset). A nil error is
  \<open>None\<close>.
\<close>

record 'k lookupBlock =
  lk_meta :: BlockEntry
  lk_GetSingleSortKeyIdx :: nat
  index_Dedup :: "'k \<Rightarrow> error option"
  index_GetActiveRow :: "'k \<Rightarrow> 32 word \<times> error option"
  index_IsKeyDeleted :: "'k \<Rightarrow> 64 word \<Rightarrow> bool \<times> bool"
  mvcc_IsVisibleLocked :: "32 word \<Rightarrow> 64 word \<Rightarrow> bool \<times> error option"
  mvcc_IsDeletedLocked :: "32 word \<Rightarrow> 64 word \<Rightarrow> bool \<times> error option"
  getVectorWrapper :: "nat \<Rightarrow> 'k list \<times> error option"
  CheckRowExists :: "'k list \<Rightarrow> 'k \<Rightarrow> 32 word \<times> bool"
  DecodeHiddenKeyFromValue :: "'k \<Rightarrow> 32 word"

text \<open>
  The functions return the named results \<open>(offset, err)\<close> of the source as they stand
  at the \<open>return\<close>.
\<close>

definition ablkGetByFilter ::
  "'k lookupBlock \<Rightarrow> 64 word \<Rightarrow> 'k Filter \<Rightarrow> 32 word \<times> error option" where
  "ablkGetByFilter blk ts flt =
     (let (offset, err) = index_GetActiveRow blk (Val flt)
      in if err \<noteq> None \<and> err \<noteq> Some ErrNotFound then (offset, err)
         else
           let early =
             (if err = None then
                (let (visible, err) = mvcc_IsVisibleLocked blk offset ts
                 in if err \<noteq> None then Some (offset, err)
                    else if visible then
                      (let (deleted, err) = mvcc_IsDeletedLocked blk offset ts
                       in if err \<noteq> None then Some (offset, err)
                          else if deleted then Some (offset, Some ErrNotFound)
                          else Some (offset, err))
                    else None)
              else None)
           in case early of
                Some r \<Rightarrow> r
              | None \<Rightarrow>
                  (let (deleted, existed) = index_IsKeyDeleted blk (Val flt) ts
                   in if \<not> existed \<or> deleted then (offset, Some ErrNotFound)
                      else (offset, None)))"

definition blkGetByFilter ::
  "'k lookupBlock \<Rightarrow> 64 word \<Rightarrow> 'k Filter \<Rightarrow> 32 word \<times> error option" where
  "blkGetByFilter blk ts flt =
     (let err = index_Dedup blk (Val flt)
      in if err = None then (0, Some ErrNotFound)
         else if err \<noteq> Some ErrPossibleDuplicate then (0, err)
         else
           let (pkColumn, err) = getVectorWrapper blk (lk_GetSingleSortKeyIdx blk)
           in if err \<noteq> None then (0, err)
              else
                let (offset, existed) = CheckRowExists blk pkColumn (Val flt)
                in if \<not> existed then (offset, Some ErrNotFound)
                   else
                     let (deleted, err) = mvcc_IsDeletedLocked blk offset ts
                     in if err \<noteq> None then (offset, err)
                        else if deleted then (offset, Some ErrNotFound)
                        else (offset, err))"

text \<open>\<open>GetByFilter\<close> takes the start timestamp of the transaction.\<close>

definition GetByFilter ::
  "'k lookupBlock \<Rightarrow> 64 word \<Rightarrow> 'k Filter \<Rightarrow> 32 word \<times> error option" where
  "GetByFilter blk startTS flt =
     (if Op flt \<noteq> FilterEq then (0, Some GoPanic)
      else if SortKey (GetSchema (lk_meta blk)) = None
      then (DecodeHiddenKeyFromValue blk (Val flt), None)
      else if IsAppendable (lk_meta blk) then ablkGetByFilter blk startTS flt
      else blkGetByFilter blk startTS flt)"

text \<open>
  An immutable block with the primary-key column \<open>[1, 3, 5, 7]\<close>. Its index reports
  the keys of the column as possible duplicates, fails on the key 9 with an error of
  the filter's reader, and reports every other key absent.
\<close>

definition sealed_lookup :: "int lookupBlock" where
  "sealed_lookup =
     \<lparr>lk_meta = \<lparr>GetSchema = \<lparr>ColDefs = [''pk'', ''v''], BlockMaxRows = 4,
                               SortKey = Some [0], HiddenKey = 2\<rparr>,
                 IsAppendable = False, IsDroppedCommitted = False,
                 IsDroppedUncommitted = False, HasActiveTxn = False, AsCommonID = 4\<rparr>,
      lk_GetSingleSortKeyIdx = 0,
      index_Dedup = (\<lambda>k. if k \<in> {1, 3, 5, 7} then Some ErrPossibleDuplicate
                          else if k = 9 then Some (ErrIO ''bloom filter'') else None),
      index_GetActiveRow = (\<lambda>k. (0, Some ErrNotFound)),
      index_IsKeyDeleted = (\<lambda>k ts. (False, False)),
      mvcc_IsVisibleLocked = (\<lambda>row ts. (True, None)),
      mvcc_IsDeletedLocked = (\<lambda>row ts. (row = 1, None)),
      getVectorWrapper = (\<lambda>c. ([1, 3, 5, 7], None)),
      CheckRowExists = (\<lambda>col k. if k = 1 then (0, True) else if k = 3 then (1, True)
                                else if k = 5 then (2, True) else if k = 7 then (3, True)
                                else (0, False)),
      DecodeHiddenKeyFromValue = (\<lambda>k. 0)\<rparr>"

subsection \<open>Destroying a block\<close>

text \<open>
  What \<open>Destroy\<close> reads and changes: the \<open>ClosedState\<close> latch, whether \<open>node\<close>,
  \<open>index\<close> and \<open>file\<close> are set (not nil), and the column files by column index. The
  effects on the collaborators are recorded in the state: whether the node was closed,
  which column files were released, whether the index was destroyed and the block file
  closed and destroyed.
\<close>

record destroyBlock =
  closed :: bool
  node_set :: bool
  colFiles :: "nat set"
  index_set :: bool
  file_set :: bool
  node_closed :: bool
  unrefd :: "nat set"
  index_destroyed :: bool
  file_closed :: bool
  file_destroyed :: bool

text \<open>The errors that the four fallible calls of \<open>Destroy\<close> return (\<open>None\<close> for nil).\<close>

record destroyOutcome =
  node_Close :: "error option"
  index_Destroy :: "error option"
  file_Close :: "error option"
  file_Destroy :: "error option"

text \<open>
  \<open>TryClose\<close> of the latch succeeds for the first caller only. A call that returns an
  error is still a call that was made: its effect flag is set before the error is
  looked at.
\<close>

definition Destroy :: "destroyOutcome \<Rightarrow> destroyBlock \<Rightarrow> error option \<times> destroyBlock" where
  "Destroy out blk =
     (if closed blk then (None, blk)
      else
        let blk = blk\<lparr>closed := True\<rparr>;
            (err, blk) = (if node_set blk then (node_Close out, blk\<lparr>node_closed := True\<rparr>)
                          else (None, blk))
        in if err \<noteq> None then (err, blk)
           else
             let blk = blk\<lparr>unrefd := unrefd blk \<union> colFiles blk\<rparr>;
                 blk = blk\<lparr>colFiles := {}\<rparr>;
                 (err, blk) = (if index_set blk
                               then (index_Destroy out, blk\<lparr>index_destroyed := True\<rparr>)
                               else (err, blk))
             in if err \<noteq> None then (err, blk)
                else if file_set blk then
                  (let (err, blk) = (file_Close out, blk\<lparr>file_closed := True\<rparr>)
                   in if err \<noteq> None then (err, blk)
                      else
                        let (err, blk) = (file_Destroy out, blk\<lparr>file_destroyed := True\<rparr>)
                        in (err, blk))
                else (err, blk))"

text \<open>An open appendable block with two column files, and collaborators that all succeed.\<close>

definition open_blk :: destroyBlock where
  "open_blk =
     \<lparr>closed = False, node_set = True, colFiles = {0, 1}, index_set = True, file_set = True,
      node_closed = False, unrefd = {}, index_destroyed = False, file_closed = False,
      file_destroyed = False\<rparr>"

definition all_ok :: destroyOutcome where
  "all_ok = \<lparr>node_Close = None, index_Destroy = None, file_Close = None, file_Destroy = None\<rparr>"

text \<open>Collaborators of which only the closing of the appendable node fails.\<close>

definition flush_fails :: destroyOutcome where
  "flush_fails = all_ok\<lparr>node_Close := Some (ErrIO ''flush'')\<rparr>"

subsection \<open>The MVCC handle\<close>

text \<open>
  The package of the MVCC handle (updates) is not part of the sources at hand. Its data
  and the operations that the block calls are modelled from the specification; each
  such definition says so in its comment. A timestamp is a 64-bit word, a row offset
  and a column index are natural numbers (the source orders and compares them, and
  does no arithmetic on them), and a commit timestamp is \<open>None\<close> while the node is
  uncommitted. A node of an aborted transaction is not in its chain: abort removes it.
\<close>

record Txn =
  GetStartTS :: "64 word"

record 'v ColumnNode =
  un_startTs :: "64 word"
  un_commitTs :: "64 word option"
  un_vals :: "nat \<rightharpoonup> 'v"

record DeleteNode =
  dn_startTs :: "64 word"
  dn_commitTs :: "64 word option"
  dn_rows :: "nat list"

record AppendNode =
  an_startRow :: nat
  an_length :: nat
  an_commitTs :: "64 word option"

record 'v MVCCHandle =
  appends :: "AppendNode list"
  columns :: "'v ColumnNode list list"
  deletes :: "DeleteNode list"
  maxVisible :: "64 word"

definition committed_at :: "64 word option \<Rightarrow> 64 word \<Rightarrow> bool" where
  "committed_at c ts = (case c of None \<Rightarrow> False | Some c \<Rightarrow> c \<le> ts)"

definition IsDeletedLocked :: "'v MVCCHandle \<Rightarrow> nat \<Rightarrow> 64 word \<Rightarrow> bool \<times> error option" where
  \<comment> \<open>Modelled from the spec: \<open>MVCCHandle.IsDeletedLocked\<close> is missing. "A row offset is
      deleted at T iff some committed delete node visible at T covers it."\<close>
  "IsDeletedLocked h row ts =
     (list_ex (\<lambda>n. committed_at (dn_commitTs n) ts \<and> row \<in> set (dn_rows n)) (deletes h), None)"

text \<open>
  The fold of a column chain at a timestamp, for one row: the best candidate so far is
  replaced by a committed node that covers the row, is visible at the timestamp and
  does not commit before the candidate.
\<close>

fun latest_update ::
  "'v ColumnNode list \<Rightarrow> nat \<Rightarrow> 64 word \<Rightarrow> (64 word \<times> 'v) option \<Rightarrow> (64 word \<times> 'v) option" where
  "latest_update [] row ts best = best"
| "latest_update (n # ns) row ts best =
     latest_update ns row ts
       (case (un_commitTs n, un_vals n row) of
          (Some c, Some v) \<Rightarrow>
            if c \<le> ts \<and> (case best of None \<Rightarrow> True | Some (c', _) \<Rightarrow> c' \<le> c)
            then Some (c, v) else best
        | _ \<Rightarrow> best)"

definition GetValueLocked ::
  "'v ColumnNode list \<Rightarrow> nat \<Rightarrow> 64 word \<Rightarrow> 'v option \<times> error option" where
  \<comment> \<open>Modelled from the spec: \<open>ColumnChain.GetValueLocked\<close> is missing. "Among all committed
      update nodes visible at timestamp T, the one with the greatest commit timestamp
      \<open>\<le>\<close> T wins"; without one the chain has no value for the row.\<close>
  "GetValueLocked chain row ts =
     (case latest_update chain row ts None of
        None \<Rightarrow> (None, Some ErrNotFound)
      | Some (c, v) \<Rightarrow> (Some v, None))"

definition GetMaxVisibleRowLocked ::
  "'v MVCCHandle \<Rightarrow> 64 word \<Rightarrow> nat \<times> bool \<times> error option" where
  \<comment> \<open>Modelled from the spec: \<open>MVCCHandle.GetMaxVisibleRowLocked\<close> is missing. "Returns the
      highest row offset whose append is committed \<open>\<le>\<close> ts", together with whether there
      is one. The source uses the result as the number of rows to read (it stands where
      \<open>node.rows\<close> stands), so it is the end of the last visible append.\<close>
  "GetMaxVisibleRowLocked h ts =
     (let vis = filter (\<lambda>n. committed_at (an_commitTs n) ts) (appends h)
      in if vis = [] then (0, False, None)
         else (fold (\<lambda>n m. max (an_startRow n + an_length n) m) vis 0, True, None))"

subsection \<open>Reading a value\<close>

text \<open>
  The appendable node: the number of rows appended (\<open>rows\<close>) and the buffer of each
  column (\<open>data\<close>).
  \<open>GetVectorCopy\<close> is a method of the node.
\<close>

record 'v appendableNode =
  nd_rows :: nat
  nd_data :: "nat \<Rightarrow> 'v list"

definition GetVectorCopy :: "'v appendableNode \<Rightarrow> nat \<Rightarrow> nat \<Rightarrow> 'v list option \<times> error option" where
  \<comment> \<open>Modelled from the spec: \<open>appendableNode.GetVectorCopy\<close> is missing.
      "\<open>getVectorCopy(upTo, colIdx, ...)\<close> \<open>\<rightarrow>\<close> owned column": the first \<open>upTo\<close> rows of the
      column's buffer.\<close>
  "GetVectorCopy nd maxRow colIdx = (Some (take maxRow (nd_data nd colIdx)), None)"

definition compute_GetValue :: "'v list option \<Rightarrow> nat \<Rightarrow> 'v option \<times> error option" where
  \<comment> \<open>Modelled from the spec: \<open>compute.GetValue\<close> is missing. It reads the vector at the
      row; on a nil vector or past its end the Go program panics. The value read is
      never nil.\<close>
  "compute_GetValue vec row =
     (case vec of
        None \<Rightarrow> (None, Some GoPanic)
      | Some xs \<Rightarrow> if row < length xs then (Some (xs ! row), None) else (None, Some GoPanic))"

text \<open>
  The block as \<open>GetValue\<close> and the update paths see it (the record is extended below
  by what the replay reads and writes). \<open>vb_node\<close> is the node (\<open>None\<close> for nil);
  \<open>colFile\<close> gives what \<open>getVectorWrapper\<close> reads from the data file of a column: the
  vector of the wrapper and the error of the read.
\<close>

record 'v valueBlock =
  vb_meta :: BlockEntry
  vb_node :: "'v appendableNode option"
  colFile :: "nat \<Rightarrow> 'v list \<times> error option"
  vb_mvcc :: "'v MVCCHandle"

definition GetMaxVisibleTS :: "('v, 'z) valueBlock_scheme \<Rightarrow> 64 word" where
  "GetMaxVisibleTS blk = maxVisible (vb_mvcc blk)"

record 'v ColumnView =
  RawVec :: "'v list option"

text \<open>
  \<open>getVectorCopy\<close> with \<open>raw = true\<close> and nil buffers, as \<open>GetValue\<close> calls it. The
  result is the view (\<open>None\<close> for nil) and the error. On a nil node the method call
  panics.
\<close>

definition getVectorCopy ::
  "('v, 'z) valueBlock_scheme \<Rightarrow> 64 word \<Rightarrow> nat \<Rightarrow> 'v ColumnView option \<times> error option" where
  "getVectorCopy blk ts colIdx =
     (case vb_node blk of
        None \<Rightarrow> (None, Some GoPanic)
      | Some nd \<Rightarrow>
          let (maxRow, visible, err) =
                (if ts \<ge> GetMaxVisibleTS blk then (nd_rows nd, True, None)
                 else GetMaxVisibleRowLocked (vb_mvcc blk) ts)
          in if \<not> visible \<or> err \<noteq> None then (None, err)
             else
               let (vec, err) = GetVectorCopy nd maxRow colIdx
               in (Some \<lparr>RawVec = vec\<rparr>, err))"

definition getVectorWrapper_col :: "('v, 'z) valueBlock_scheme \<Rightarrow> nat \<Rightarrow> 'v list \<times> error option" where
  "getVectorWrapper_col blk colIdx = colFile blk colIdx"

text \<open>
  \<open>GetValue\<close> returns the named results \<open>(v, err)\<close>; a nil value is \<open>None\<close>. A column
  without a chain in the handle gives a nil chain, whose lock panics; so does the read
  of \<open>view.RawVec\<close> when \<open>getVectorCopy\<close> has returned a nil view.
\<close>

definition GetValue :: "('v, 'z) valueBlock_scheme \<Rightarrow> Txn \<Rightarrow> nat \<Rightarrow> nat \<Rightarrow> 'v option \<times> error option" where
  "GetValue blk txn row col =
     (let ts = GetStartTS txn;
          (deleted, err) = IsDeletedLocked (vb_mvcc blk) row ts
      in if err \<noteq> None then (None, err)
         else if deleted then (None, Some ErrNotFound)
         else if \<not> col < length (columns (vb_mvcc blk)) then (None, Some GoPanic)
         else
           let chain = columns (vb_mvcc blk) ! col;
               (v, err) = GetValueLocked chain row ts
           in if err = Some TxnInternalErr then (v, err)
              else
                let (v, err) = (if err \<noteq> None then (None, None) else (v, err))
                in if v \<noteq> None \<or> err \<noteq> None then (v, err)
                   else if IsAppendable (vb_meta blk) then
                     (case fst (getVectorCopy blk (GetStartTS txn) col) of
                        None \<Rightarrow> (None, Some GoPanic)
                      | Some view \<Rightarrow> compute_GetValue (RawVec view) row)
                   else
                     (let wrapper = fst (getVectorWrapper_col blk col)
                      in compute_GetValue (Some wrapper) row))"

subsubsection \<open>Example: a block after an append, an update, a delete and a second append\<close>

text \<open>
  The block of the scenarios S1 to S3 of the specification, with the columns \<open>pk\<close>
  and \<open>v\<close>: rows \<open>(1, 10)\<close> and \<open>(2, 20)\<close> appended and committed at 100, \<open>v\<close> of row 0
  updated to 11 by a transaction that started at 160 and committed at 180, row 0
  deleted at 220, and a row \<open>(1, 99)\<close> appended and committed at 240.
\<close>

definition s3_mvcc :: "int MVCCHandle" where
  "s3_mvcc =
     \<lparr>appends = [\<lparr>an_startRow = 0, an_length = 2, an_commitTs = Some 100\<rparr>,
                 \<lparr>an_startRow = 2, an_length = 1, an_commitTs = Some 240\<rparr>],
      columns = [[], [\<lparr>un_startTs = 160, un_commitTs = Some 180, un_vals = [0 \<mapsto> 11]\<rparr>]],
      deletes = [\<lparr>dn_startTs = 210, dn_commitTs = Some 220, dn_rows = [0]\<rparr>],
      maxVisible = 240\<rparr>"

definition s3_meta :: BlockEntry where
  "s3_meta =
     \<lparr>GetSchema = \<lparr>ColDefs = [''pk'', ''v''], BlockMaxRows = 4,
                   SortKey = Some [0], HiddenKey = 2\<rparr>,
      IsAppendable = True, IsDroppedCommitted = False, IsDroppedUncommitted = False,
      HasActiveTxn = False, AsCommonID = 5\<rparr>"

definition s3_blk :: "int valueBlock" where
  "s3_blk =
     \<lparr>vb_meta = s3_meta,
      vb_node = Some \<lparr>nd_rows = 3,
                   nd_data = (\<lambda>c. if c = 0 then [1, 2, 1] else if c = 1 then [10, 20, 99] else [])\<rparr>,
      colFile = (\<lambda>c. ([], None)),
      vb_mvcc = s3_mvcc\<rparr>"

text \<open>The same rows sealed in an immutable block, read from the column files.\<close>

definition s3_sealed :: "int valueBlock" where
  "s3_sealed =
     \<lparr>vb_meta = s3_meta\<lparr>IsAppendable := False\<rparr>,
      vb_node = None,
      colFile = (\<lambda>c. (if c = 0 then [1, 2, 1] else if c = 1 then [10, 20, 99] else [], None)),
      vb_mvcc = s3_mvcc\<rparr>"

subsubsection \<open>Visibility as the specification words it\<close>

text \<open>
  A row is deleted at a timestamp iff a delete node committed at or before it covers
  the row; an update node is a visible update of a row with commit timestamp \<open>c\<close> and
  value \<open>v\<close>; a row of an appendable block is visible at a timestamp when an append
  committed at or before it covers the row (at or after \<open>maxVisible\<close> every row of the
  node is read).
\<close>

definition deleted_at :: "'v MVCCHandle \<Rightarrow> nat \<Rightarrow> 64 word \<Rightarrow> bool" where
  "deleted_at h row ts =
     (\<exists>n \<in> set (deletes h). \<exists>c. dn_commitTs n = Some c \<and> c \<le> ts \<and> row \<in> set (dn_rows n))"

definition visible_update :: "'v ColumnNode \<Rightarrow> nat \<Rightarrow> 64 word \<Rightarrow> 64 word \<Rightarrow> 'v \<Rightarrow> bool" where
  "visible_update n row ts c v = (un_commitTs n = Some c \<and> c \<le> ts \<and> un_vals n row = Some v)"

definition row_visible :: "'v MVCCHandle \<Rightarrow> 'v appendableNode \<Rightarrow> 64 word \<Rightarrow> nat \<Rightarrow> bool" where
  "row_visible h nd ts row =
     (if ts \<ge> maxVisible h then row < nd_rows nd
      else \<exists>a \<in> set (appends h). \<exists>c. an_commitTs a = Some c \<and> c \<le> ts \<and>
                                    row < an_startRow a + an_length a)"

subsection \<open>Column updates\<close>

text \<open>
  A write of another transaction conflicts with a writer that started at \<open>ts\<close> when
  its node covers the row and is in flight, or has committed after \<open>ts\<close>. A node that
  started at \<open>ts\<close> is the writer's own: the start timestamp identifies a transaction.
\<close>

definition ww_conflict :: "'v ColumnNode \<Rightarrow> nat \<Rightarrow> 64 word \<Rightarrow> bool" where
  \<comment> \<open>Modelled from the spec: "Two transactions that both write (update or delete) the
      same row offset conflict; the later writer observes WWConflict unless the earlier
      writer has aborted."\<close>
  "ww_conflict n row ts =
     (un_vals n row \<noteq> None \<and> un_startTs n \<noteq> ts \<and>
      (case un_commitTs n of None \<Rightarrow> True | Some c \<Rightarrow> ts < c))"

definition CheckNotDeleted :: "'v MVCCHandle \<Rightarrow> nat \<Rightarrow> nat \<Rightarrow> 64 word \<Rightarrow> error option" where
  \<comment> \<open>Modelled from the spec: \<open>MVCCHandle.CheckNotDeleted\<close> is missing. "An updater that
      discovers its target row is deleted at its start timestamp observes NotFound"; a
      delete of the range that is in flight or has committed later is a write-write
      conflict. The first delete node of the chain that touches the range decides.\<close>
  "CheckNotDeleted h start end ts =
     (case filter (\<lambda>n. list_ex (\<lambda>row. start \<le> row \<and> row \<le> end) (dn_rows n)) (deletes h) of
        [] \<Rightarrow> None
      | n # _ \<Rightarrow> if committed_at (dn_commitTs n) ts then Some ErrNotFound
                 else Some TxnWWConflictErr)"

definition CheckNotUpdated :: "'v MVCCHandle \<Rightarrow> nat \<Rightarrow> nat \<Rightarrow> 64 word \<Rightarrow> error option" where
  \<comment> \<open>Modelled from the spec: \<open>MVCCHandle.CheckNotUpdated\<close> is missing. It "returns a
      Conflict error if any committed or in-flight older transaction has already
      updated any row in the range as seen at ts": it takes no column, so every column
      chain of the handle is looked at.\<close>
  "CheckNotUpdated h start end ts =
     (if list_ex (\<lambda>chain. list_ex (\<lambda>n. list_ex (\<lambda>row. ww_conflict n row ts)
                                            [start ..< Suc end]) chain) (columns h)
      then Some TxnWWConflictErr else None)"

text \<open>
  A node of a chain is referred to by its position in the chain. \<open>AddNodeLocked\<close>
  returns the chain with the new node and the position of that node.
\<close>

definition AddNodeLocked :: "'v ColumnNode list \<Rightarrow> Txn \<Rightarrow> 'v ColumnNode list \<times> nat" where
  \<comment> \<open>Modelled from the spec: \<open>ColumnChain.AddNodeLocked\<close> is missing. It "appends an
      update node" owned by the transaction, uncommitted and with an empty row mask.\<close>
  "AddNodeLocked chain txn =
     (chain @ [\<lparr>un_startTs = GetStartTS txn, un_commitTs = None, un_vals = Map.empty\<rparr>],
      length chain)"

definition TryUpdateNodeLocked ::
  "'v ColumnNode list \<Rightarrow> nat \<Rightarrow> 'v \<Rightarrow> nat \<Rightarrow> 'v ColumnNode list \<times> error option" where
  \<comment> \<open>Modelled from the spec: \<open>ColumnChain.TryUpdateNodeLocked\<close> is missing. "\<open>tryUpdate\<close>
      rejects if the row was already covered by another in-flight or committed write";
      otherwise the node takes the row and the value.\<close>
  "TryUpdateNodeLocked chain row v node =
     (if list_ex (\<lambda>j. j \<noteq> node \<and> ww_conflict (chain ! j) row (un_startTs (chain ! node)))
          [0 ..< length chain]
      then (chain, Some TxnWWConflictErr)
      else (chain[node := (chain ! node)\<lparr>un_vals := (un_vals (chain ! node))(row \<mapsto> v)\<rparr>],
            None))"

definition DeleteNodeLocked :: "'v ColumnNode list \<Rightarrow> nat \<Rightarrow> 'v ColumnNode list" where
  \<comment> \<open>Modelled from the spec: \<open>ColumnChain.DeleteNodeLocked\<close> is missing. "On rejection the
      node is removed from the chain."\<close>
  "DeleteNodeLocked chain node = take node chain @ drop (Suc node) chain"

text \<open>The chain of a column is written back into the handle of the block.\<close>

definition set_chain ::
  "('v, 'z) valueBlock_scheme \<Rightarrow> nat \<Rightarrow> 'v ColumnNode list \<Rightarrow> ('v, 'z) valueBlock_scheme" where
  "set_chain blk colIdx chain =
     blk\<lparr>vb_mvcc := (vb_mvcc blk)\<lparr>columns := (columns (vb_mvcc blk))[colIdx := chain]\<rparr>\<rparr>"

text \<open>
  The two update paths return the named results \<open>(node, err)\<close> and the block with its
  handle as they leave it. The locks are not modelled: each path runs alone. A column
  without a chain gives a nil chain, whose lock panics.
\<close>

definition updateWithCoarseLock ::
  "'v valueBlock \<Rightarrow> Txn \<Rightarrow> nat \<Rightarrow> nat \<Rightarrow> 'v \<Rightarrow> nat option \<times> error option \<times> 'v valueBlock" where
  "updateWithCoarseLock blk txn row colIdx v =
     (let err = CheckNotDeleted (vb_mvcc blk) row row (GetStartTS txn)
      in if err = None then
           (let err = CheckNotUpdated (vb_mvcc blk) row row (GetStartTS txn)
            in if err \<noteq> None then (None, err, blk)
               else if \<not> colIdx < length (columns (vb_mvcc blk)) then (None, Some GoPanic, blk)
               else
                 let chain = columns (vb_mvcc blk) ! colIdx;
                     (chain, node) = AddNodeLocked chain txn;
                     (chain, err) = TryUpdateNodeLocked chain row v node;
                     chain = (if err \<noteq> None then DeleteNodeLocked chain node else chain)
                 in (Some node, err, set_chain blk colIdx chain))
         else (None, err, blk))"

definition updateWithFineLock ::
  "'v valueBlock \<Rightarrow> Txn \<Rightarrow> nat \<Rightarrow> nat \<Rightarrow> 'v \<Rightarrow> nat option \<times> error option \<times> 'v valueBlock" where
  "updateWithFineLock blk txn row colIdx v =
     (let err = CheckNotDeleted (vb_mvcc blk) row row (GetStartTS txn)
      in if err = None then
           (if \<not> colIdx < length (columns (vb_mvcc blk)) then (None, Some GoPanic, blk)
            else
              let chain = columns (vb_mvcc blk) ! colIdx;
                  (chain, node) = AddNodeLocked chain txn;
                  (chain, err) = TryUpdateNodeLocked chain row v node;
                  chain = (if err \<noteq> None then DeleteNodeLocked chain node else chain)
              in (Some node, err, set_chain blk colIdx chain))
         else (None, err, blk))"

definition Update ::
  "'v valueBlock \<Rightarrow> Txn \<Rightarrow> nat \<Rightarrow> nat \<Rightarrow> 'v \<Rightarrow> nat option \<times> error option \<times> 'v valueBlock" where
  "Update blk txn row colIdx v =
     (if HiddenKey (GetSchema (vb_meta blk)) = colIdx then (None, Some ErrUpdateHiddenKey, blk)
      else updateWithFineLock blk txn row colIdx v)"

text \<open>
  The block of scenario S2 while the first updater is in flight: rows \<open>(1, 10)\<close> and
  \<open>(2, 20)\<close> committed at 100, and an uncommitted update of \<open>v\<close> of row 0 by a
  transaction that started at 160.
\<close>

definition s2_blk :: "int valueBlock" where
  "s2_blk =
     \<lparr>vb_meta = s3_meta,
      vb_node = Some \<lparr>nd_rows = 2,
                   nd_data = (\<lambda>c. if c = 0 then [1, 2] else if c = 1 then [10, 20] else [])\<rparr>,
      colFile = (\<lambda>c. ([], None)),
      vb_mvcc =
        \<lparr>appends = [\<lparr>an_startRow = 0, an_length = 2, an_commitTs = Some 100\<rparr>],
         columns = [[], [\<lparr>un_startTs = 160, un_commitTs = None, un_vals = [0 \<mapsto> 11]\<rparr>]],
         deletes = [],
         maxVisible = 100\<rparr>\<rparr>"

subsection \<open>Replay on open\<close>

text \<open>
  The block file as the replay reads it: the commit timestamp and the row count of the
  headers, the data of each column, the updates region (per column, the update mask
  with its values: one partial map from row to value; \<open>None\<close> for nil maps) and the
  result of \<open>LoadDeletes\<close> (the delete mask, nil when there is none, and the error).
\<close>

record 'v blockFile =
  ReadTS :: "64 word"
  ReadRows :: nat
  fileColumn :: "nat \<Rightarrow> 'v list"
  LoadUpdates :: "(nat \<times> (nat \<rightharpoonup> 'v)) list option"
  LoadDeletes :: "nat list option \<times> error option"

subsubsection \<open>Schema methods\<close>

definition HasSortKey :: "Schema \<Rightarrow> bool" where
  \<comment> \<open>Modelled from the spec: \<open>Schema.HasSortKey\<close> is missing. The schema has "zero or more
      sort-key columns".\<close>
  "HasSortKey s = (SortKey s \<noteq> None)"

definition HasPK :: "Schema \<Rightarrow> bool" where
  \<comment> \<open>Modelled from the spec: \<open>Schema.HasPK\<close> is missing. The specification has one
      "sort/PK index": the sort key is the primary key.\<close>
  "HasPK s = (SortKey s \<noteq> None)"

definition IsSinglePK :: "Schema \<Rightarrow> bool" where
  \<comment> \<open>Modelled from the spec: \<open>Schema.IsSinglePK\<close> is missing: a key of one column.\<close>
  "IsSinglePK s = (case SortKey s of Some [i] \<Rightarrow> True | _ \<Rightarrow> False)"

definition GetSingleSortKeyIdx :: "Schema \<Rightarrow> nat" where
  \<comment> \<open>Modelled from the spec: \<open>Schema.GetSingleSortKeyIdx\<close> is missing: the column of
      the first sort-key definition.\<close>
  "GetSingleSortKeyIdx s = (case SortKey s of Some (i # _) \<Rightarrow> i | _ \<Rightarrow> 0)"

subsubsection \<open>The primary-key index\<close>

text \<open>
  A key is the list of the values of the sort-key columns of a row (one value for a
  single key; the encodings of a compound key, \<open>EncodeCompoundColumn\<close> for a batch and
  \<open>EncodeTypedVals\<close> for one row, are injective and agree). The mutable index holds the
  active map from key to row offset and the tombstone map from key to the timestamp of
  the last delete; the immutable index holds the sorted keys it was read from.
\<close>

datatype 'k Index =
    MutableIndex "'k \<rightharpoonup> nat" "'k \<rightharpoonup> 64 word"
  | ImmutableIndex "'k list"

definition NewMutableIndex :: "'k Index" where
  "NewMutableIndex = MutableIndex Map.empty Map.empty"

definition NewImmutableIndex :: "'k Index" where
  "NewImmutableIndex = ImmutableIndex []"

record 'k KeysCtx =
  Keys :: "'k list"
  Start :: nat
  Count :: nat

fun upsert_keys :: "('k \<rightharpoonup> nat) \<Rightarrow> 'k list \<Rightarrow> nat \<Rightarrow> ('k \<rightharpoonup> nat)" where
  "upsert_keys act [] offset = act"
| "upsert_keys act (k # ks) offset = upsert_keys (act(k \<mapsto> offset)) ks (Suc offset)"

fun Index_BatchUpsert :: "'k Index \<Rightarrow> 'k KeysCtx \<Rightarrow> nat \<Rightarrow> 64 word \<Rightarrow> error option \<times> 'k Index" where
  \<comment> \<open>Modelled from the spec: \<open>Index.BatchUpsert\<close> is missing.
      "\<open>batchUpsert(keys, startOffset, ts)\<close>" on the mutable variant: each key of the
      batch becomes active at its row offset, a later key replacing an earlier equal
      one. The immutable variant has no such operation.\<close>
  "Index_BatchUpsert (MutableIndex act tomb) ctx offset ts =
     (None, MutableIndex (upsert_keys act (take (Count ctx) (drop (Start ctx) (Keys ctx))) offset)
                         tomb)"
| "Index_BatchUpsert (ImmutableIndex ks) ctx offset ts = (Some GoPanic, ImmutableIndex ks)"

fun Index_GetActiveRow :: "'k Index \<Rightarrow> 'k \<Rightarrow> nat \<times> error option" where
  \<comment> \<open>Modelled from the spec: \<open>Index.GetActiveRow\<close> is missing.
      "\<open>getActiveRow(key)\<close> \<open>\<rightarrow>\<close> offset | NotFound".\<close>
  "Index_GetActiveRow (MutableIndex act tomb) key =
     (case act key of Some row \<Rightarrow> (row, None) | None \<Rightarrow> (0, Some ErrNotFound))"
| "Index_GetActiveRow (ImmutableIndex ks) key = (0, Some GoPanic)"

fun Index_Delete :: "'k Index \<Rightarrow> 'k \<Rightarrow> 64 word \<Rightarrow> error option \<times> 'k Index" where
  \<comment> \<open>Modelled from the spec: \<open>Index.Delete\<close> is missing. "\<open>delete(key, ts)\<close>": the key
      leaves the active map and its tombstone is the timestamp.\<close>
  "Index_Delete (MutableIndex act tomb) key ts =
     (None, MutableIndex (act(key := None)) (tomb(key \<mapsto> ts)))"
| "Index_Delete (ImmutableIndex ks) key ts = (Some GoPanic, ImmutableIndex ks)"

fun Index_ReadFrom :: "'k Index \<Rightarrow> 'k list \<Rightarrow> error option \<times> 'k Index" where
  \<comment> \<open>Modelled from the spec: \<open>Index.ReadFrom\<close> is missing. "\<open>readFrom(block)\<close> to
      populate from the sorted on-disk column".\<close>
  "Index_ReadFrom (ImmutableIndex ks) col = (None, ImmutableIndex col)"
| "Index_ReadFrom (MutableIndex act tomb) col = (Some GoPanic, MutableIndex act tomb)"

subsubsection \<open>Replay operations of the MVCC handle\<close>

definition NewMVCCHandle :: "BlockEntry \<Rightarrow> 'v MVCCHandle" where
  \<comment> \<open>Modelled from the spec: \<open>updates.NewMVCCHandle\<close> is missing: no append node, an
      empty chain per column of the schema, an empty delete chain.\<close>
  "NewMVCCHandle entry =
     \<lparr>appends = [], columns = replicate (length (ColDefs (GetSchema entry))) [],
      deletes = [], maxVisible = 0\<rparr>"

definition SetMaxVisible :: "'v MVCCHandle \<Rightarrow> 64 word \<Rightarrow> 'v MVCCHandle" where
  \<comment> \<open>Modelled from the spec: \<open>MVCCHandle.SetMaxVisible\<close> is missing.\<close>
  "SetMaxVisible h ts = h\<lparr>maxVisible := ts\<rparr>"

definition NewCommittedAppendNode :: "64 word \<Rightarrow> nat \<Rightarrow> AppendNode" where
  \<comment> \<open>Modelled from the spec: \<open>updates.NewCommittedAppendNode\<close> is missing: "a synthetic
      committed append node covering the on-disk rows".\<close>
  "NewCommittedAppendNode ts maxRow =
     \<lparr>an_startRow = 0, an_length = maxRow, an_commitTs = Some ts\<rparr>"

definition OnReplayAppendNode :: "'v MVCCHandle \<Rightarrow> AppendNode \<Rightarrow> 'v MVCCHandle" where
  \<comment> \<open>Modelled from the spec: \<open>MVCCHandle.OnReplayAppendNode\<close> is missing: it "reinstates
      a node during open" and bypasses conflict checks.\<close>
  "OnReplayAppendNode h an = h\<lparr>appends := appends h @ [an]\<rparr>"

definition NewCommittedColumnNode :: "64 word \<Rightarrow> 64 word \<Rightarrow> 'v ColumnNode" where
  \<comment> \<open>Modelled from the spec: \<open>updates.NewCommittedColumnNode\<close> is missing: a committed
      column node with the start and commit timestamps given.\<close>
  "NewCommittedColumnNode startTs commitTs =
     \<lparr>un_startTs = startTs, un_commitTs = Some commitTs, un_vals = Map.empty\<rparr>"

definition OnReplayUpdateNode :: "'v ColumnNode list \<Rightarrow> 'v ColumnNode \<Rightarrow> 'v ColumnNode list" where
  \<comment> \<open>Modelled from the spec: \<open>ColumnChain.OnReplayUpdateNode\<close> is missing: it
      "reinstates a node during open".\<close>
  "OnReplayUpdateNode chain n = chain @ [n]"

definition NewMergedNode :: "64 word \<Rightarrow> DeleteNode" where
  \<comment> \<open>Modelled from the spec: \<open>updates.NewMergedNode\<close> is missing: "a merged committed
      delete node at \<open>ckpTs\<close>".\<close>
  "NewMergedNode ts = \<lparr>dn_startTs = ts, dn_commitTs = Some ts, dn_rows = []\<rparr>"

definition OnReplayDeleteNode :: "'v MVCCHandle \<Rightarrow> DeleteNode \<Rightarrow> 'v MVCCHandle" where
  \<comment> \<open>Modelled from the spec: \<open>MVCCHandle.OnReplayDeleteNode\<close> is missing: it
      "reinstates a node during open".\<close>
  "OnReplayDeleteNode h n = h\<lparr>deletes := deletes h @ [n]\<rparr>"

definition newNode :: "'v blockFile \<Rightarrow> 'v appendableNode" where
  \<comment> \<open>Modelled from the spec: \<open>newNode\<close> is missing. The buffer of a reopened appendable
      block holds the rows of the block file: the append node of the replay covers "the
      on-disk rows" and is built from \<open>node.rows\<close>.\<close>
  "newNode file = \<lparr>nd_rows = ReadRows file, nd_data = fileColumn file\<rparr>"

subsubsection \<open>The block under replay\<close>

text \<open>
  The block of above, extended by the block file, the index (\<open>None\<close> for nil), the
  checkpoint timestamp and the number of rows that the delete listener has reported to
  the table of the catalog (\<open>RemoveRows\<close>).
\<close>

record 'v replayBlock = "'v valueBlock" +
  rb_file :: "'v blockFile"
  rb_index :: "'v list Index option"
  rb_ckpTs :: "64 word"
  rb_removedRows :: nat

subsubsection \<open>The delete listeners\<close>

text \<open>
  The loop \<open>for gen.HasNext()\<close> of \<open>ABlkApplyDelete\<close>. Its two branches differ in how
  the key of a row is read from the buffer (\<open>keyOf\<close>); a read past the end of a vector
  is taken to panic. The result is the error at the end of the loop and the index.
\<close>

fun apply_delete_loop ::
  "(nat \<Rightarrow> 'k option) \<Rightarrow> 'k Index \<Rightarrow> 64 word \<Rightarrow> nat list \<Rightarrow> error option \<times> 'k Index" where
  "apply_delete_loop keyOf idx ts [] = (None, idx)"
| "apply_delete_loop keyOf idx ts (row # gen) =
     (case keyOf row of
        None \<Rightarrow> (Some GoPanic, idx)
      | Some v \<Rightarrow>
          (case Index_GetActiveRow idx v of
             (currRow, err) \<Rightarrow>
               if err \<noteq> None \<or> currRow = row then
                 (case Index_Delete idx v ts of
                    (err, idx') \<Rightarrow>
                      if err \<noteq> None then (err, idx')
                      else apply_delete_loop keyOf idx' ts gen)
               else apply_delete_loop keyOf idx ts gen))"

definition single_key :: "'v appendableNode \<Rightarrow> Schema \<Rightarrow> nat \<Rightarrow> 'v list option" where
  \<comment> \<open>\<open>vec.GetValue(int(row))\<close> on the vector of the single sort-key column.\<close>
  "single_key nd schema row =
     (let vec = nd_data nd (GetSingleSortKeyIdx schema)
      in if row < length vec then Some [vec ! row] else None)"

definition compound_key :: "'v appendableNode \<Rightarrow> nat list \<Rightarrow> nat \<Rightarrow> 'v list option" where
  \<comment> \<open>\<open>model.EncodeTypedVals\<close> of the values of the row in the sort-key columns.\<close>
  "compound_key nd idxs row =
     (let vecs = map (nd_data nd) idxs
      in if list_all (\<lambda>vec. row < length vec) vecs then Some (map (\<lambda>vec. vec ! row) vecs)
         else None)"

definition BlkApplyDelete ::
  "'v replayBlock \<Rightarrow> nat \<Rightarrow> nat list \<Rightarrow> 64 word \<Rightarrow> error option \<times> 'v replayBlock" where
  "BlkApplyDelete blk deleted gen ts =
     (None, blk\<lparr>rb_removedRows := rb_removedRows blk + deleted\<rparr>)"

definition ABlkApplyDelete ::
  "'v replayBlock \<Rightarrow> nat \<Rightarrow> nat list \<Rightarrow> 64 word \<Rightarrow> error option \<times> 'v replayBlock" where
  "ABlkApplyDelete blk deleted gen ts =
     (let schema = GetSchema (vb_meta blk)
      in if \<not> HasPK schema
         then (None, blk\<lparr>rb_removedRows := rb_removedRows blk + deleted\<rparr>)
         else
           (case (vb_node blk, rb_index blk, SortKey schema) of
              (Some nd, Some idx, Some idxs) \<Rightarrow>
                (case apply_delete_loop
                        (if IsSinglePK schema then single_key nd schema else compound_key nd idxs)
                        idx ts gen of
                   (err, idx') \<Rightarrow>
                     if err \<noteq> None then (err, blk\<lparr>rb_index := Some idx'\<rparr>)
                     else (None, blk\<lparr>rb_index := Some idx',
                                      rb_removedRows := rb_removedRows blk + deleted\<rparr>))
            | _ \<Rightarrow> (Some GoPanic, blk)))"

definition OnApply :: "'v replayBlock \<Rightarrow> DeleteNode \<Rightarrow> error option \<times> 'v replayBlock" where
  \<comment> \<open>Modelled from the spec: \<open>DeleteNode.OnApply\<close> is missing. The handle holds "installed
      listeners (the block registers a delete listener to maintain the PK index)": a
      committed node reports the number of its rows, the rows and its commit timestamp
      to the listener that \<open>newBlock\<close> has set, \<open>ABlkApplyDelete\<close> on an appendable block
      and \<open>BlkApplyDelete\<close> otherwise.\<close>
  "OnApply blk n =
     (case dn_commitTs n of
        None \<Rightarrow> (None, blk)
      | Some ts \<Rightarrow>
          if IsAppendable (vb_meta blk)
          then ABlkApplyDelete blk (length (dn_rows n)) (dn_rows n) ts
          else BlkApplyDelete blk (length (dn_rows n)) (dn_rows n) ts)"

subsubsection \<open>ReplayIndex, ReplayDelta and newBlock\<close>

definition OnReplayUpdate ::
  "'v replayBlock \<Rightarrow> nat \<Rightarrow> 'v ColumnNode \<Rightarrow> error option \<times> 'v replayBlock" where
  "OnReplayUpdate blk colIdx n =
     (if \<not> colIdx < length (columns (vb_mvcc blk)) then (Some GoPanic, blk)
      else (None, set_chain blk colIdx (OnReplayUpdateNode (columns (vb_mvcc blk) ! colIdx) n)))"

definition OnReplayDelete :: "'v replayBlock \<Rightarrow> DeleteNode \<Rightarrow> error option \<times> 'v replayBlock" where
  "OnReplayDelete blk n =
     (let blk = blk\<lparr>vb_mvcc := OnReplayDeleteNode (vb_mvcc blk) n\<rparr>
      in OnApply blk n)"

text \<open>The loop \<open>for colIdx, mask := range masks\<close> of \<open>ReplayDelta\<close>.\<close>

fun replay_updates ::
  "'v replayBlock \<Rightarrow> (nat \<times> (nat \<rightharpoonup> 'v)) list \<Rightarrow> error option \<times> 'v replayBlock" where
  "replay_updates blk [] = (None, blk)"
| "replay_updates blk ((colIdx, vals) # ups) =
     (case OnReplayUpdate blk colIdx
             ((NewCommittedColumnNode (rb_ckpTs blk) (rb_ckpTs blk))\<lparr>un_vals := vals\<rparr>) of
        (err, blk') \<Rightarrow> if err \<noteq> None then (err, blk') else replay_updates blk' ups)"

definition ReplayDelta :: "'v replayBlock \<Rightarrow> error option \<times> 'v replayBlock" where
  "ReplayDelta blk =
     (if \<not> IsAppendable (vb_meta blk) then (None, blk)
      else
        (case vb_node blk of
           None \<Rightarrow> (Some GoPanic, blk)
         | Some nd \<Rightarrow>
             let an = NewCommittedAppendNode (rb_ckpTs blk) (nd_rows nd);
                 blk = blk\<lparr>vb_mvcc := OnReplayAppendNode (vb_mvcc blk) an\<rparr>;
                 (err, blk) = (case LoadUpdates (rb_file blk) of
                                 None \<Rightarrow> (None, blk)
                               | Some ups \<Rightarrow> replay_updates blk ups)
             in if err \<noteq> None then (err, blk)
                else
                  (case LoadDeletes (rb_file blk) of
                     (dels, err) \<Rightarrow>
                       (case dels of
                          None \<Rightarrow> (err, blk)
                        | Some rows \<Rightarrow>
                            if err \<noteq> None then (err, blk)
                            else OnReplayDelete blk
                                   ((NewMergedNode (rb_ckpTs blk))\<lparr>dn_rows := rows\<rparr>)))))"

text \<open>The loop of \<open>ReplayIndex\<close> that copies the sort-key columns of a compound key.\<close>

fun copy_sort_columns ::
  "'v appendableNode \<Rightarrow> nat list \<Rightarrow> 'v list list \<times> error option" where
  "copy_sort_columns nd [] = ([], None)"
| "copy_sort_columns nd (i # idxs) =
     (case GetVectorCopy nd (nd_rows nd) i of
        (vec, err) \<Rightarrow>
          if err \<noteq> None then ([], err)
          else
            (case vec of
               None \<Rightarrow> ([], Some GoPanic)
             | Some xs \<Rightarrow>
                 (case copy_sort_columns nd idxs of (vs, err) \<Rightarrow> (xs # vs, err))))"

definition EncodeCompoundColumn :: "'v list list \<Rightarrow> 'v list list" where
  \<comment> \<open>Modelled from the spec: \<open>model.EncodeCompoundColumn\<close> is missing: the compound key
      of each row, for the rows that every column has.\<close>
  "EncodeCompoundColumn vs =
     (case vs of
        [] \<Rightarrow> []
      | v0 # _ \<Rightarrow> map (\<lambda>r. map (\<lambda>vec. vec ! r) vs)
                     [0 ..< foldr min (map length vs) (length v0)])"

definition ReplayIndex :: "'v replayBlock \<Rightarrow> error option \<times> 'v replayBlock" where
  "ReplayIndex blk =
     (let schema = GetSchema (vb_meta blk)
      in if IsAppendable (vb_meta blk) then
           (if \<not> HasPK schema then (None, blk)
            else
              (case (vb_node blk, SortKey schema) of
                 (Some nd, Some idxs) \<Rightarrow>
                   let (keys, err) =
                         (if IsSinglePK schema then
                            (case GetVectorCopy nd (nd_rows nd) (GetSingleSortKeyIdx schema) of
                               (vec, err) \<Rightarrow>
                                 if err \<noteq> None then ([], err)
                                 else (case vec of
                                         None \<Rightarrow> ([], Some GoPanic)
                                       | Some xs \<Rightarrow> (map (\<lambda>x. [x]) xs, None)))
                          else
                            (case copy_sort_columns nd idxs of
                               (vs, err) \<Rightarrow>
                                 if err \<noteq> None then ([], err)
                                 else (EncodeCompoundColumn vs, None)))
                   in if err \<noteq> None then (err, blk)
                      else
                        (case rb_index blk of
                           None \<Rightarrow> (Some GoPanic, blk)
                         | Some idx \<Rightarrow>
                             (case Index_BatchUpsert idx
                                     \<lparr>Keys = keys, Start = 0, Count = length keys\<rparr> 0 0 of
                                (err, idx') \<Rightarrow> (err, blk\<lparr>rb_index := Some idx'\<rparr>)))
               | _ \<Rightarrow> (Some GoPanic, blk)))
         else if HasSortKey schema then
           (case rb_index blk of
              None \<Rightarrow> (Some GoPanic, blk)
            | Some idx \<Rightarrow>
                (case Index_ReadFrom idx
                        (map (\<lambda>x. [x]) (fst (colFile blk (GetSingleSortKeyIdx schema)))) of
                   (err, idx') \<Rightarrow> (err, blk\<lparr>rb_index := Some idx'\<rparr>)))
         else (None, blk))"

text \<open>
  \<open>newBlock\<close> on an opened block file. A panic of the source is \<open>Inl\<close> of its error.
\<close>

definition newBlock :: "BlockEntry \<Rightarrow> 'v blockFile \<Rightarrow> error + 'v replayBlock" where
  "newBlock entry file =
     (let ts = ReadTS file;
          (nd, idx) =
             (if IsAppendable entry
              then (Some (newNode file),
                    if HasPK (GetSchema entry) then Some NewMutableIndex else None)
              else (None, Some NewImmutableIndex));
          block = \<lparr>vb_meta = entry, vb_node = nd,
                   colFile = (\<lambda>c. (fileColumn file c, None)),
                   vb_mvcc = SetMaxVisible (NewMVCCHandle entry) ts,
                   rb_file = file, rb_index = idx, rb_ckpTs = ts, rb_removedRows = 0\<rparr>
      in if ts > 0 then
           (case ReplayIndex block of
              (Some e, _) \<Rightarrow> Inl e
            | (None, block) \<Rightarrow>
                (case ReplayDelta block of
                   (Some e, _) \<Rightarrow> Inl e
                 | (None, block) \<Rightarrow> Inr block))
         else Inr block)"

text \<open>The primary key of a row of the block file: its values in the sort-key columns.\<close>

definition disk_key :: "'v blockFile \<Rightarrow> nat list \<Rightarrow> nat \<Rightarrow> 'v list" where
  "disk_key file idxs r = map (\<lambda>i. fileColumn file i ! r) idxs"

text \<open>
  The block file of scenario S6, with the columns \<open>v\<close> and \<open>pk\<close>: three rows written
  by two appends, \<open>v\<close> of the rows 0 and 2 updated, row 1 deleted, all of it committed
  at or before the timestamp 300 of the file.
\<close>

definition s6_entry :: BlockEntry where
  "s6_entry =
     \<lparr>GetSchema = \<lparr>ColDefs = [''v'', ''pk''], BlockMaxRows = 4,
                   SortKey = Some [1], HiddenKey = 2\<rparr>,
      IsAppendable = True, IsDroppedCommitted = False, IsDroppedUncommitted = False,
      HasActiveTxn = False, AsCommonID = 6\<rparr>"

definition s6_file :: "int blockFile" where
  "s6_file =
     \<lparr>ReadTS = 300, ReadRows = 3,
      fileColumn = (\<lambda>c. if c = 0 then [10, 20, 30] else if c = 1 then [1, 2, 3] else []),
      LoadUpdates = Some [(0, [0 \<mapsto> 11, 2 \<mapsto> 31])],
      LoadDeletes = (Some [1], None)\<rparr>"

section \<open>Properties\<close>

subsection \<open>Rounding to float64\<close>

lemma pow2_powi: "pow2 k = 2 powi k"
  by (simp add: pow2_def power_int_def field_simps)

lemma bit_length_bounds: "0 < n \<Longrightarrow> 2 ^ (bit_length n - 1) \<le> n \<and> n < 2 ^ bit_length n"
proof (induction n rule: bit_length.induct)
  case (1 n)
  show ?case
  proof (cases "n div 2 \<le> 0")
    case True
    with 1 have "n = 1" by linarith
    then show ?thesis by (simp add: bit_length.simps)
  next
    case False
    then have "0 < n div 2" by simp
    with 1 have ih: "2 ^ (bit_length (n div 2) - 1) \<le> n div 2" "n div 2 < 2 ^ bit_length (n div 2)"
      by simp_all
    have pos: "0 < bit_length (n div 2)"
      using False by (subst bit_length.simps) simp
    have b: "bit_length n = Suc (bit_length (n div 2))"
      using 1 by (subst bit_length.simps) simp
    have "2 * 2 ^ (bit_length (n div 2) - 1) \<le> n"
      using ih(1) by linarith
    moreover have "2 * 2 ^ (bit_length (n div 2) - 1) = (2::int) ^ bit_length (n div 2)"
      using pos by (cases "bit_length (n div 2)") simp_all
    moreover have "n < 2 * 2 ^ bit_length (n div 2)"
      using ih(2) by linarith
    ultimately show ?thesis by (simp add: b)
  qed
qed

lemma pow2_pos: "0 < pow2 k"
  by (simp add: pow2_def)

lemma pow2_add: "pow2 (a + b) = pow2 a * pow2 b"
  by (simp add: pow2_powi power_int_add)

lemma pow2_nat: "pow2 (int n) = 2 ^ n"
  by (simp add: pow2_def)

lemma pow2_neg_nat: "pow2 (- int n) = 1 / 2 ^ n"
  by (simp add: pow2_powi power_int_minus_divide)

lemma pow2_Suc: "pow2 (k + 1) = 2 * pow2 k"
  by (simp add: pow2_powi power_int_add_1')

lemma pow2_le_mono: "a \<le> b \<Longrightarrow> pow2 a \<le> pow2 b"
proof -
  assume "a \<le> b"
  then obtain n where "b = a + int n"
    using zle_iff_zadd by blast
  then have "pow2 b = pow2 a * 2 ^ n"
    by (simp add: pow2_add pow2_nat)
  moreover have "(1::rat) \<le> 2 ^ n" by simp
  ultimately show ?thesis
    using pow2_pos [of a] by (simp add: mult_le_cancel_left1)
qed

lemma pow2_less_mono: "a < b \<Longrightarrow> pow2 a < pow2 b"
proof -
  assume "a < b"
  then have "a + 1 \<le> b" by simp
  then have "pow2 (a + 1) \<le> pow2 b" by (rule pow2_le_mono)
  moreover have "pow2 a < pow2 (a + 1)"
    using pow2_pos [of a] by (simp add: pow2_Suc)
  ultimately show ?thesis by simp
qed

lemma pow2_less_iff: "pow2 a < pow2 b \<longleftrightarrow> a < b"
  using pow2_less_mono [of a b] pow2_le_mono [of b a] by (auto simp: not_less [symmetric])

lemma pow2_le_iff: "pow2 a \<le> pow2 b \<longleftrightarrow> a \<le> b"
  using pow2_less_iff [of b a] by (auto simp: not_less [symmetric])

text \<open>\<open>f64_exponent\<close> is the binary exponent.\<close>

lemma f64_exponent_bounds:
  assumes "0 < x"
  shows "pow2 (f64_exponent x) \<le> x \<and> x < pow2 (f64_exponent x + 1)"
proof (cases "1 \<le> x")
  case True
  define n where "n = \<lfloor>x\<rfloor>"
  have n1: "0 < n" using True by (simp add: n_def)
  have nx: "of_int n \<le> x" "x < of_int n + 1"
    unfolding n_def by linarith+
  from bit_length_bounds [OF n1]
  have b: "2 ^ (bit_length n - 1) \<le> n" "n + 1 \<le> 2 ^ bit_length n" by simp_all
  have bl: "0 < bit_length n" using n1 by (subst bit_length.simps) simp
  have e: "f64_exponent x = int (bit_length n - 1)"
    using True bl by (simp add: f64_exponent_def n_def)
  have e1: "f64_exponent x + 1 = int (bit_length n)"
    using e bl by simp
  have "(of_int (2 ^ (bit_length n - 1)) :: rat) \<le> of_int n"
    using b(1) by (simp only: of_int_le_iff)
  then have "(2::rat) ^ (bit_length n - 1) \<le> of_int n"
    by simp
  moreover have "(of_int (n + 1) :: rat) \<le> of_int (2 ^ bit_length n)"
    using b(2) by (simp only: of_int_le_iff)
  then have "(of_int n + 1 :: rat) \<le> 2 ^ bit_length n"
    by simp
  ultimately show ?thesis
    using nx unfolding e1 unfolding e pow2_nat by linarith
next
  case False
  define c where "c = \<lceil>1 / x\<rceil>"
  define m where "m = c - 1"
  have y1: "1 < 1 / x" using assms False by simp
  have c2: "2 \<le> c" using y1 by (simp add: c_def le_ceiling_iff)
  have m1: "0 < m" using c2 by (simp add: m_def)
  have cy: "1 / x \<le> of_int c" "of_int c - 1 < 1 / x"
    unfolding c_def by linarith+
  from bit_length_bounds [OF m1]
  have b: "2 ^ (bit_length m - 1) \<le> m" "m + 1 \<le> 2 ^ bit_length m" by simp_all
  have bl: "0 < bit_length m" using m1 by (subst bit_length.simps) simp
  have e: "f64_exponent x = - int (bit_length m)"
    using False by (simp add: f64_exponent_def m_def c_def)
  have e1: "f64_exponent x + 1 = - int (bit_length m - 1)"
    using e bl by simp
  have "(of_int (2 ^ (bit_length m - 1)) :: rat) \<le> of_int m"
    using b(1) by (simp only: of_int_le_iff)
  then have r1: "(2::rat) ^ (bit_length m - 1) \<le> of_int m"
    by simp
  have "(of_int (m + 1) :: rat) \<le> of_int (2 ^ bit_length m)"
    using b(2) by (simp only: of_int_le_iff)
  then have r2: "(of_int m + 1 :: rat) \<le> 2 ^ bit_length m"
    by simp
  have cm': "(of_int c :: rat) = of_int m + 1"
    by (simp add: m_def)
  have "1 / x \<le> 2 ^ bit_length m"
    using cy(1) r2 unfolding cm' by linarith
  then have lo: "1 / 2 ^ bit_length m \<le> x"
    using assms by (simp add: field_simps)
  have "2 ^ (bit_length m - 1) < 1 / x"
    using cy(2) r1 unfolding cm' by linarith
  then have hi: "x < 1 / 2 ^ (bit_length m - 1)"
    using assms by (simp add: field_simps)
  show ?thesis
    using lo hi unfolding e1 unfolding e pow2_neg_nat by linarith
qed

lemma f64_exponent_eq:
  assumes "pow2 e \<le> x" "x < pow2 (e + 1)"
  shows "f64_exponent x = e"
proof -
  have "0 < x" using assms(1) pow2_pos [of e] by simp
  from f64_exponent_bounds [OF this]
  have b: "pow2 (f64_exponent x) \<le> x" "x < pow2 (f64_exponent x + 1)" by simp_all
  have "pow2 e < pow2 (f64_exponent x + 1)" using assms(1) b(2) by simp
  then have "e < f64_exponent x + 1" by (simp add: pow2_less_iff)
  moreover have "pow2 (f64_exponent x) < pow2 (e + 1)" using assms(2) b(1) by simp
  then have "f64_exponent x < e + 1" by (simp add: pow2_less_iff)
  ultimately show ?thesis by simp
qed

lemma round_even_near: "\<bar>m - of_int r\<bar> < 1 / 2 \<Longrightarrow> round_even m = r"
proof -
  assume a: "\<bar>m - of_int r\<bar> < 1 / 2"
  show ?thesis
  proof (cases "of_int r \<le> m")
    case True
    then have "\<lfloor>m\<rfloor> = r" using a by (simp add: floor_eq_iff)
    then show ?thesis using a True by (simp add: round_even_def Let_def)
  next
    case False
    then have f: "\<lfloor>m\<rfloor> = r - 1" using a by (simp add: floor_eq_iff)
    have "1 / 2 < m - of_int (r - 1)" using a False by simp
    then show ?thesis using f by (simp add: round_even_def Let_def)
  qed
qed

lemma round_even_of_int: "round_even (of_int r) = r"
  by (rule round_even_near) simp

lemma round_even_tie_down: "m = of_int r + 1 / 2 \<Longrightarrow> even r \<Longrightarrow> round_even m = r"
proof -
  assume a: "m = of_int r + 1 / 2" "even r"
  have "\<lfloor>m\<rfloor> = r" using a(1) by (simp add: floor_eq_iff)
  then show ?thesis using a by (simp add: round_even_def Let_def)
qed

lemma round_even_le: "m \<le> of_int N \<Longrightarrow> round_even m \<le> N"
proof -
  assume a: "m \<le> of_int N"
  show ?thesis
  proof (cases "m = of_int N")
    case True
    then show ?thesis by (simp add: round_even_of_int)
  next
    case False
    then have "m < of_int N" using a by simp
    then have "\<lfloor>m\<rfloor> < N" by (simp add: floor_less_iff)
    then show ?thesis by (simp add: round_even_def Let_def)
  qed
qed

lemma round_even_ge: "of_int N \<le> m \<Longrightarrow> N \<le> round_even m"
proof -
  assume "of_int N \<le> m"
  then have "N \<le> \<lfloor>m\<rfloor>" by (simp add: le_floor_iff)
  then show ?thesis by (simp add: round_even_def Let_def)
qed

text \<open>
  How a rational in the range of the normal numbers is rounded: with \<open>e\<close> its binary
  exponent, to the multiple of \<open>2 ^ (e - 52)\<close> that \<open>round_even\<close> chooses.
\<close>

lemma f64_eqI:
  assumes "pow2 e \<le> x" "x < pow2 (e + 1)" "- 1022 \<le> e" "e \<le> 1023"
    and "round_even (x / pow2 (e - 52)) = r"
    and "of_int r * pow2 (e - 52) < pow2 1024"
  shows "f64 x = Some (of_int r * pow2 (e - 52))"
proof -
  have x: "0 < x" using assms(1) pow2_pos [of e] by simp
  have e: "f64_exponent x = e"
    using assms(1,2) by (rule f64_exponent_eq)
  have t: "max (e - 52) (- 1074) = e - 52" using assms(3) by simp
  note r = assms(5)
  show ?thesis
    using x assms(6) by (simp add: f64_def Let_def e t r)
qed

text \<open>A number with a significand of 53 bits is a double: rounding leaves it.\<close>

lemma f64_exactI:
  assumes "x = of_int r * pow2 t" "2 ^ 52 \<le> r" "r < 2 ^ 53" "- 1074 \<le> t" "t \<le> 971"
  shows "f64 x = Some x"
proof -
  have p: "pow2 (t + 52) = pow2 t * 2 ^ 52" "pow2 (t + 52 + 1) = pow2 t * 2 ^ 53"
    using pow2_add [of t 52] pow2_add [of t 53] by (simp_all add: pow2_def add.assoc)
  have r: "(2::rat) ^ 52 \<le> of_int r" "(of_int r :: rat) < 2 ^ 53"
    using assms(2,3) by simp_all
  have 1: "pow2 (t + 52) \<le> x"
    unfolding p assms(1) using r(1) pow2_pos [of t] by (simp add: mult.commute)
  have 2: "x < pow2 (t + 52 + 1)"
    unfolding p assms(1) using r(2) pow2_pos [of t] by (simp add: mult.commute)
  have 3: "round_even (x / pow2 (t + 52 - 52)) = r"
    using pow2_pos [of t] by (simp add: assms(1) round_even_of_int)
  have "pow2 (t + 53) \<le> pow2 1024" using assms(5) by (simp add: pow2_le_iff)
  then have 4: "of_int r * pow2 (t + 52 - 52) < pow2 1024"
    using 2 by (simp add: assms(1) add.assoc)
  have "f64 x = Some (of_int r * pow2 (t + 52 - 52))"
    by (rule f64_eqI [OF 1 2 _ _ 3 4]) (use assms(4,5) in simp_all)
  then show ?thesis by (simp add: assms(1))
qed

text \<open>
  The result of rounding is a multiple of a power of two by an integer of at most 53
  bits, and it has the sign of what is rounded.
\<close>

lemma f64_grid:
  assumes "f64 y = Some x" "0 \<le> y"
  shows "\<exists>r t. x = of_int r * pow2 t \<and> 0 \<le> r \<and> r \<le> 2 ^ 53 \<and> - 1074 \<le> t"
proof (cases "y = 0")
  case True
  then have "x = of_int 0 * pow2 0" using assms by (simp add: f64_def)
  then show ?thesis by (intro exI [of _ 0] exI [of _ "0::int"]) simp
next
  case False
  then have y: "0 < y" using assms(2) by simp
  define t where "t = max (f64_exponent y - 52) (- 1074)"
  define r where "r = round_even (y / pow2 t)"
  have x: "x = of_int r * pow2 t"
    using assms(1) y by (simp add: f64_def Let_def t_def r_def split: if_splits)
  have "0 \<le> y / pow2 t" using y pow2_pos [of t] by simp
  then have r0: "0 \<le> r" using round_even_ge [of 0 "y / pow2 t"] by (simp add: r_def)
  have "y < pow2 (f64_exponent y + 1)"
    using f64_exponent_bounds [OF y] by simp
  also have "\<dots> \<le> pow2 (t + 53)"
    by (rule pow2_le_mono) (simp add: t_def)
  also have "\<dots> = pow2 t * 2 ^ 53"
    using pow2_add [of t 53] by (simp add: pow2_def)
  finally have "y / pow2 t \<le> of_int (2 ^ 53)"
    using pow2_pos [of t] by (simp add: field_simps)
  then have "r \<le> 2 ^ 53" unfolding r_def by (rule round_even_le)
  moreover have "- 1074 \<le> t" by (simp add: t_def)
  ultimately show ?thesis using x r0 by blast
qed

lemma f64_nonneg: "0 \<le> y \<Longrightarrow> f64 y = Some x \<Longrightarrow> 0 \<le> x"
proof -
  assume "0 \<le> y" "f64 y = Some x"
  then obtain r t where "x = of_int r * pow2 t" "0 \<le> r"
    using f64_grid by blast
  then show ?thesis using pow2_pos [of t] by simp
qed

text \<open>
  Between a rational \<open>c\<close> and the next multiple \<open>k / 2 ^ n\<close> of the spacing of the
  doubles around \<open>c\<close> there is no double: a double below \<open>k / 2 ^ n\<close> is below \<open>c\<close>.
\<close>

lemma f64_below_const:
  assumes "f64 y = Some x" "0 \<le> y"
    and "of_int k - 1 < c * 2 ^ n" "pow2 (53 - int n - 1) < c"
    and "x < of_int k / 2 ^ n"
  shows "x < c"
proof (rule ccontr)
  assume "\<not> x < c"
  then have cx: "c \<le> x" by simp
  obtain r t where rt: "x = of_int r * pow2 t" "0 \<le> r" "r \<le> 2 ^ 53"
    using f64_grid [OF assms(1,2)] by blast
  have "(of_int r :: rat) \<le> 2 ^ 53" using rt(3) by simp
  then have "x \<le> 2 ^ 53 * pow2 t"
    unfolding rt(1) using pow2_pos [of t] by simp
  also have "\<dots> = pow2 (53 + t)"
    using pow2_add [of 53 t] by (simp add: pow2_def)
  finally have "pow2 (53 - int n - 1) < pow2 (53 + t)"
    using assms(4) cx by simp
  then have tn: "0 \<le> t + int n" by (simp add: pow2_less_iff)
  define j where "j = r * 2 ^ nat (t + int n)"
  have "pow2 t * 2 ^ n = pow2 (t + int n)"
    using pow2_add [of t "int n"] by (simp add: pow2_nat)
  also have "\<dots> = 2 ^ nat (t + int n)" using tn by (simp add: pow2_def)
  finally have "x * 2 ^ n = of_int j"
    by (simp add: rt(1) j_def mult.assoc)
  then have xj: "x = of_int j / 2 ^ n" by (simp add: field_simps)
  have "(of_int j :: rat) < of_int k"
    using assms(5) unfolding xj by (simp add: field_simps)
  then have "j \<le> k - 1" by simp
  then have "(of_int j :: rat) \<le> of_int k - 1" by (metis of_int_le_iff of_int_diff of_int_1)
  then have "of_int j < c * 2 ^ n" using assms(3) by simp
  then have "x < c" unfolding xj by (simp add: field_simps)
  with cx show False by simp
qed

subsection \<open>Evaluation of the example blocks\<close>

lemma Rows_full_blk: "Rows full_blk = 4"
  by (simp add: Rows_def full_blk_def)

lemma Rows_half_blk: "Rows half_blk = 2"
  by (simp add: Rows_def half_blk_def full_blk_def)

lemma Rows_sealed_blk: "Rows sealed_blk = 4"
  by (simp add: Rows_def sealed_blk_def full_blk_def)

lemma Rows_deleted3_blk: "Rows deleted3_blk = 16"
  by (simp add: Rows_def deleted3_blk_def)

lemma Rows_ratio005_blk: "Rows ratio005_blk = 200"
  by (simp add: Rows_def ratio005_blk_def)

lemma Rows_upd11_blk: "Rows upd11_blk = 1000"
  by (simp add: Rows_def upd11_blk_def)

lemma Rows_full_dropped_blk: "Rows full_dropped_blk = 4"
  by (simp add: Rows_def full_dropped_blk_def full_blk_def)

lemma estimateRawScore_full_blk: "estimateRawScore full_blk = Some 100"
  by (simp add: estimateRawScore_def Rows_full_blk) (simp add: full_blk_def)

lemma estimateRawScore_sealed_blk: "estimateRawScore sealed_blk = Some 0"
  by (simp add: estimateRawScore_def Rows_sealed_blk) (simp add: sealed_blk_def full_blk_def)

text \<open>The doubles that the scores of the example blocks pass through.\<close>

lemma f64_0: "f64 0 = Some 0"
  by (simp add: f64_def)

lemma f64_1: "f64 1 = Some 1"
  by (rule f64_exactI [where r = "2 ^ 52" and t = "- 52"]) (simp_all add: pow2_def)

lemma f64_3: "f64 3 = Some 3"
  by (rule f64_exactI [where r = "3 * 2 ^ 51" and t = "- 51"]) (simp_all add: pow2_def)

lemma f64_11: "f64 11 = Some 11"
  by (rule f64_exactI [where r = "11 * 2 ^ 49" and t = "- 49"]) (simp_all add: pow2_def)

lemma f64_16: "f64 16 = Some 16"
  by (rule f64_exactI [where r = "2 ^ 52" and t = "- 48"]) (simp_all add: pow2_def)

lemma f64_50: "f64 50 = Some 50"
  by (rule f64_exactI [where r = "50 * 2 ^ 47" and t = "- 47"]) (simp_all add: pow2_def)

lemma f64_100: "f64 100 = Some 100"
  by (rule f64_exactI [where r = "100 * 2 ^ 46" and t = "- 46"]) (simp_all add: pow2_def)

lemma f64_200: "f64 200 = Some 200"
  by (rule f64_exactI [where r = "200 * 2 ^ 45" and t = "- 45"]) (simp_all add: pow2_def)

lemma f64_1000: "f64 1000 = Some 1000"
  by (rule f64_exactI [where r = "1000 * 2 ^ 43" and t = "- 43"]) (simp_all add: pow2_def)

lemma f64_3_16: "f64 (3 / 16) = Some (3 / 16)"
  by (rule f64_exactI [where r = "3 * 2 ^ 51" and t = "- 55"]) (simp_all add: pow2_def)

lemma f64_75_8: "f64 (75 / 8) = Some (75 / 8)"
  by (rule f64_exactI [where r = "75 * 2 ^ 46" and t = "- 49"]) (simp_all add: pow2_def)

lemma f64_1875_2: "f64 (1875 / 2) = Some (1875 / 2)"
  by (rule f64_exactI [where r = "1875 * 2 ^ 42" and t = "- 43"]) (simp_all add: pow2_def)

text \<open>
  \<open>1/200\<close> and \<open>1/10\<close> round up, to \<open>5764607523034235 / 2 ^ 60\<close> and to
  \<open>3602879701896397 / 2 ^ 55\<close>: these are the constants \<open>0.005\<close> and \<open>0.10\<close> of the
  source.
\<close>

lemma f64_1_200: "f64 (1 / 200) = Some (5764607523034235 / 1152921504606846976)"
proof -
  have "f64 (1 / 200) = Some (of_int 5764607523034235 * pow2 (- 8 - 52))"
    by (rule f64_eqI) (simp_all add: pow2_def round_even_near)
  then show ?thesis by (simp add: pow2_def)
qed

lemma f64_1_10: "f64 (1 / 10) = Some (3602879701896397 / 36028797018963968)"
proof -
  have "f64 (1 / 10) = Some (of_int 7205759403792794 * pow2 (- 4 - 52))"
    by (rule f64_eqI) (simp_all add: pow2_def round_even_near)
  then show ?thesis by (simp add: pow2_def)
qed

text \<open>\<open>0.005 * 20\<close> rounds to the double \<open>0.1\<close>, and \<open>0.1 * 100\<close> to 10.\<close>

lemma f64_005_times_20:
  "f64 (28823037615171175 / 288230376151711744) = Some (3602879701896397 / 36028797018963968)"
proof -
  have "f64 (28823037615171175 / 288230376151711744)
          = Some (of_int 7205759403792794 * pow2 (- 4 - 52))"
    by (rule f64_eqI) (simp_all add: pow2_def round_even_near)
  then show ?thesis by (simp add: pow2_def)
qed

lemma f64_01: "f64 (3602879701896397 / 36028797018963968) = Some (3602879701896397 / 36028797018963968)"
  by (rule f64_exactI [where r = "7205759403792794" and t = "- 56"]) (simp_all add: pow2_def)

lemma f64_01_times_100: "f64 (90071992547409925 / 9007199254740992) = Some 10"
proof -
  have "f64 (90071992547409925 / 9007199254740992)
          = Some (of_int 5629499534213120 * pow2 (3 - 52))"
    by (rule f64_eqI) (simp_all add: pow2_def round_even_near)
  then show ?thesis by (simp add: pow2_def)
qed

text \<open>
  \<open>11/1000\<close> rounds down; times 20 it lies halfway between two doubles and goes to
  the even one, below; times 100 the result stays below 22.
\<close>

lemma f64_11_1000: "f64 (11 / 1000) = Some (3170534137668829 / 288230376151711744)"
proof -
  have "f64 (11 / 1000) = Some (of_int 6341068275337658 * pow2 (- 7 - 52))"
    by (rule f64_eqI) (simp_all add: pow2_def round_even_near)
  then show ?thesis by (simp add: pow2_def)
qed

lemma f64_0011_times_20:
  "f64 (15852670688344145 / 72057594037927936) = Some (990791918021509 / 4503599627370496)"
proof -
  have "f64 (15852670688344145 / 72057594037927936)
          = Some (of_int 7926335344172072 * pow2 (- 3 - 52))"
    by (rule f64_eqI) (simp_all add: pow2_def round_even_tie_down)
  then show ?thesis by (simp add: pow2_def)
qed

lemma f64_022: "f64 (990791918021509 / 4503599627370496) = Some (990791918021509 / 4503599627370496)"
  by (rule f64_exactI [where r = "7926335344172072" and t = "- 55"]) (simp_all add: pow2_def)

lemma f64_022_times_100:
  "f64 (24769797950537725 / 1125899906842624) = Some (6192449487634431 / 281474976710656)"
proof -
  have "f64 (24769797950537725 / 1125899906842624)
          = Some (of_int 6192449487634431 * pow2 (4 - 52))"
    by (rule f64_eqI) (simp_all add: pow2_def round_even_near)
  then show ?thesis by (simp add: pow2_def)
qed

lemmas f64_ops = f64_add_def f64_mul_def f64_div_def

lemma floor_937: "\<lfloor>1875 / 2 :: rat\<rfloor> = 937"
  by (simp add: floor_eq_iff)

lemma floor_21: "\<lfloor>6192449487634431 / 281474976710656 :: rat\<rfloor> = 21"
  by (simp add: floor_eq_iff)

lemma estimateRawScore_deleted3_blk: "estimateRawScore deleted3_blk = Some 937"
  by (simp add: estimateRawScore_def Rows_deleted3_blk GetMaxCheckpointTS_def)
     (simp add: deleted3_blk_def col_step_def colFactor_branch_def go_int_def Let_def f64_ops
        f64_0 f64_1 f64_3 f64_16 f64_50 f64_100 f64_3_16 f64_75_8 f64_1875_2 floor_937)

lemma estimateRawScore_ratio005_blk: "estimateRawScore ratio005_blk = Some 10"
  by (simp add: estimateRawScore_def Rows_ratio005_blk GetMaxCheckpointTS_def)
     (simp add: ratio005_blk_def col_step_def colFactor_branch_def go_int_def Let_def f64_ops
        f64_0 f64_1 f64_50 f64_100 f64_200 f64_1_200 f64_005_times_20 f64_01 f64_01_times_100)

lemma estimateRawScore_upd11_blk: "estimateRawScore upd11_blk = Some 21"
  by (simp add: estimateRawScore_def Rows_upd11_blk GetMaxCheckpointTS_def)
     (simp add: upd11_blk_def col_step_def colFactor_branch_def go_int_def Let_def f64_ops
        f64_0 f64_1 f64_11 f64_50 f64_100 f64_1000 f64_11_1000 f64_0011_times_20 f64_022
        f64_022_times_100 floor_21)

subsection \<open>The raw score\<close>

lemma colFactor_branch_piecewise: "colFactor_branch r = piecewise r"
  by (simp add: colFactor_branch_def piecewise_def mult.commute)

text \<open>
  On a double, the if-chain over the rationals \<open>5/1000\<close> and \<open>10/100\<close> decides as the
  if-chain over the constants of the source, the doubles \<open>0.005\<close> and \<open>0.10\<close>.
\<close>

lemma colFactor_branch_consts:
  assumes "f64 y = Some x" "0 \<le> y" "f64 (5 / 1000) = Some c1" "f64 (10 / 100) = Some c2"
  shows "colFactor_branch x =
           (if x < c1 then x * 10
            else if x \<ge> c1 \<and> x < c2 then x * 20
            else if x \<ge> c2 then x * 40
            else x)"
proof -
  have c: "c1 = 5764607523034235 / 2 ^ 60" "c2 = 7205759403792794 / 2 ^ 56"
    using assms(3,4) by (simp_all add: f64_1_200 f64_1_10)
  have 1: "(x < c1) = (x < 5 / 1000)"
  proof
    assume "x < c1"
    then have "x < of_int 5764607523034235 / 2 ^ 60" by (simp add: c)
    from f64_below_const [OF assms(1,2) _ _ this, of "5 / 1000"]
    show "x < 5 / 1000" by (simp add: pow2_def)
  next
    assume "x < 5 / 1000"
    then show "x < c1" by (simp add: c)
  qed
  have 2: "(x < c2) = (x < 10 / 100)"
  proof
    assume "x < c2"
    then have "x < of_int 7205759403792794 / 2 ^ 56" by (simp add: c)
    from f64_below_const [OF assms(1,2) _ _ this, of "10 / 100"]
    show "x < 10 / 100" by (simp add: pow2_def)
  next
    assume "x < 10 / 100"
    then show "x < c2" by (simp add: c)
  qed
  show ?thesis
    unfolding colFactor_branch_def not_less [symmetric] 1 2 by simp
qed

text \<open>The loop over the columns counts them and sums their scaled ratios in order.\<close>

lemma unat_column_index: "i < 65536 \<Longrightarrow> unat (word_of_nat i :: 16 word) = i"
  by (simp add: unat_of_nat)

lemma col_step_piecewise:
  "i < 65536 \<Longrightarrow>
   col_step blk (Rows blk) i (c, f) = (c + 1, f64_add f (piecewise_f64 (update_ratio blk i)))"
  by (simp add: col_step_def Let_def update_ratio_def piecewise_f64_def
      colFactor_branch_piecewise unat_column_index cong: option.case_cong)

lemma fold_col_step:
  "n \<le> 65536 \<Longrightarrow>
   fold (col_step blk (Rows blk)) [0 ..< n] (c, f) =
     (c + n, foldl f64_add f (map (\<lambda>i. piecewise_f64 (update_ratio blk i)) [0 ..< n]))"
  by (induction n) (simp_all add: col_step_piecewise)

text \<open>No value of the computation is negative.\<close>

lemma f64_pos: "0 \<le> x \<Longrightarrow> pred_option ((\<le>) 0) (f64 x)"
  by (cases "f64 x") (simp_all add: f64_nonneg)

lemma f64_add_pos:
  "pred_option ((\<le>) 0) a \<Longrightarrow> pred_option ((\<le>) 0) b \<Longrightarrow> pred_option ((\<le>) 0) (f64_add a b)"
  by (cases a; cases b) (simp_all add: f64_add_def f64_pos)

lemma f64_mul_pos:
  "pred_option ((\<le>) 0) a \<Longrightarrow> pred_option ((\<le>) 0) b \<Longrightarrow> pred_option ((\<le>) 0) (f64_mul a b)"
  by (cases a; cases b) (simp_all add: f64_mul_def f64_pos)

lemma f64_div_pos:
  "pred_option ((\<le>) 0) a \<Longrightarrow> pred_option ((\<le>) 0) b \<Longrightarrow> pred_option ((\<le>) 0) (f64_div a b)"
  by (cases a; cases b) (simp_all add: f64_div_def f64_pos)

lemma piecewise_nonneg: "0 \<le> r \<Longrightarrow> 0 \<le> piecewise r"
  by (simp add: piecewise_def)

lemma piecewise_f64_pos: "pred_option ((\<le>) 0) r \<Longrightarrow> pred_option ((\<le>) 0) (piecewise_f64 r)"
  by (cases r) (simp_all add: piecewise_f64_def f64_pos piecewise_nonneg)

lemma Rows_nonneg: "0 \<le> Rows blk"
  by (simp add: Rows_def)

lemma update_ratio_pos: "pred_option ((\<le>) 0) (update_ratio blk i)"
  unfolding update_ratio_def by (intro f64_div_pos f64_pos) (simp_all add: Rows_nonneg)

lemma delete_ratio_pos: "pred_option ((\<le>) 0) (delete_ratio blk)"
  unfolding delete_ratio_def by (intro f64_div_pos f64_pos) (simp_all add: Rows_nonneg)

lemma foldl_f64_add_pos:
  "pred_option ((\<le>) 0) f \<Longrightarrow> list_all (pred_option ((\<le>) 0)) xs \<Longrightarrow>
   pred_option ((\<le>) 0) (foldl f64_add f xs)"
  by (induction xs arbitrary: f) (simp_all add: f64_add_pos)

lemma spec_factor_f64_pos: "pred_option ((\<le>) 0) (spec_factor_f64 blk)"
  unfolding spec_factor_f64_def f64_sum_def
  by (intro f64_add_pos f64_div_pos f64_mul_pos foldl_f64_add_pos f64_pos delete_ratio_pos)
     (simp_all add: list_all_iff update_ratio_pos piecewise_f64_pos)

lemma go_int_nonneg: "0 \<le> x \<Longrightarrow> 0 \<le> go_int x"
  by (simp add: go_int_def)

lemma bump_zero_max: "0 \<le> (ret :: int) \<Longrightarrow> (if ret = 0 then ret + 1 else ret) = max 1 ret"
  by (simp add: max_def)

text \<open>The end of \<open>estimateRawScore\<close>, on a value that is not negative.\<close>

lemma score_of_float:
  assumes "pred_option ((\<le>) 0) v"
  shows "(case v of
            None \<Rightarrow> None
          | Some x \<Rightarrow>
              if go_int x < - (2 ^ 63) \<or> 2 ^ 63 \<le> go_int x then None
              else let ret = 0 + go_int x in Some (if ret = 0 then ret + 1 else ret))
         = (case v of
              None \<Rightarrow> None
            | Some x \<Rightarrow> if 2 ^ 63 \<le> go_int x then None else Some (max 1 (go_int x)))"
proof (cases v)
  case None
  then show ?thesis by simp
next
  case (Some x)
  then have "0 \<le> go_int x" using assms by (simp add: go_int_nonneg)
  then show ?thesis using Some by (simp add: Let_def max_def)
qed

lemma estimateRawScore_spec_score:
  assumes "length (ColDefs (GetSchema (meta blk))) \<le> 65536"
  shows "estimateRawScore blk =
     (if IsAppendable (meta blk) \<and> Rows blk = uint (BlockMaxRows (GetSchema (meta blk)))
      then Some 100
      else if GetChangeNodeCnt (mvcc blk) = 0 \<and>
              (LoadMaxVisible (mvcc blk) \<le> ckpTs blk \<or> \<not> IsAppendable (meta blk))
      then Some 0
      else spec_score blk)"
proof -
  have "pred_option ((\<le>) 0) (f64_mul (spec_factor_f64 blk) (f64 100))"
    by (intro f64_mul_pos spec_factor_f64_pos f64_pos) simp
  from score_of_float [OF this] show ?thesis
    unfolding estimateRawScore_def spec_score_def
    by (auto simp: fold_col_step [OF assms] Let_def GetMaxCheckpointTS_def
        spec_factor_f64_def f64_sum_def delete_ratio_def)
qed

subsection \<open>The raw score is defined\<close>

text \<open>An integer of at most 53 bits is a double.\<close>

lemma f64_of_int_exact:
  assumes "0 \<le> n" "n < 2 ^ 53"
  shows "f64 (of_int n) = Some (of_int n)"
proof (cases "n = 0")
  case True
  then show ?thesis by (simp add: f64_0)
next
  case False
  define x :: rat where "x = of_int n"
  have x1: "1 \<le> x" using assms(1) False by (simp add: x_def)
  then have x0: "0 < x" by simp
  define e where "e = f64_exponent x"
  have b: "pow2 e \<le> x" "x < pow2 (e + 1)"
    using f64_exponent_bounds [OF x0] by (simp_all add: e_def)
  have x53: "x < pow2 53" using assms(2) by (simp add: x_def pow2_def)
  with b(1) have "pow2 e < pow2 53" by simp
  then have e52: "e \<le> 52" by (simp add: pow2_less_iff)
  have "pow2 0 < pow2 (e + 1)" using x1 b(2) by (simp add: pow2_def)
  then have e0: "0 \<le> e" by (simp add: pow2_less_iff)
  define r where "r = n * 2 ^ nat (52 - e)"
  have p: "pow2 (e - 52) * 2 ^ nat (52 - e) = 1"
    using pow2_add [of "e - 52" "52 - e"] e52 by (simp add: pow2_def)
  then have q: "x / pow2 (e - 52) = of_int r"
    using pow2_pos [of "e - 52"] by (simp add: r_def x_def field_simps)
  have rx: "of_int r * pow2 (e - 52) = x"
    using p by (simp add: r_def x_def mult.assoc mult.commute)
  have "f64 x = Some (of_int r * pow2 (e - 52))"
  proof (rule f64_eqI [OF b])
    show "- 1022 \<le> e" "e \<le> 1023" using e0 e52 by simp_all
    show "round_even (x / pow2 (e - 52)) = r" by (simp add: q round_even_of_int)
    have "x < pow2 1024" using x53 pow2_less_mono [of 53 1024] by simp
    then show "of_int r * pow2 (e - 52) < pow2 1024" by (simp add: rx)
  qed
  then show ?thesis by (simp add: rx x_def)
qed

lemma f64_of_nat_exact: "n < 2 ^ 53 \<Longrightarrow> f64 (of_nat n) = Some (of_nat n)"
  using f64_of_int_exact [of "int n"] by simp

text \<open>
  Rounding does not cross a bound that is a multiple of a power of two no finer than
  the spacing of the doubles around what is rounded.
\<close>

lemma f64_upper:
  assumes "0 \<le> x" "x \<le> of_int N * pow2 s" "x < pow2 (s + 53)" "- 1074 \<le> s"
    and "of_int N * pow2 s < pow2 1024"
  shows "f64_within (f64 x) (of_int N * pow2 s)"
proof (cases "x = 0")
  case True
  then show ?thesis using assms(2) by (simp add: f64_0 f64_within_def)
next
  case False
  then have x0: "0 < x" using assms(1) by simp
  define e where "e = f64_exponent x"
  define t where "t = max (e - 52) (- 1074)"
  define r where "r = round_even (x / pow2 t)"
  have "pow2 e \<le> x" using f64_exponent_bounds [OF x0] by (simp add: e_def)
  with assms(3) have "pow2 e < pow2 (s + 53)" by simp
  then have "e < s + 53" by (simp add: pow2_less_iff)
  then have ts: "t \<le> s" using assms(4) by (simp add: t_def)
  define d where "d = nat (s - t)"
  have "t + int d = s" using ts by (simp add: d_def)
  then have "pow2 s = pow2 t * pow2 (int d)"
    using pow2_add [of t "int d"] by simp
  then have ps: "pow2 s = pow2 t * 2 ^ d"
    by (simp only: pow2_nat)
  have "x / pow2 t \<le> of_int (N * 2 ^ d)"
    using assms(2) pow2_pos [of t] by (simp add: ps field_simps)
  then have "r \<le> N * 2 ^ d" unfolding r_def by (rule round_even_le)
  then have "(of_int r :: rat) \<le> of_int (N * 2 ^ d)" by (simp only: of_int_le_iff)
  then have "of_int r * pow2 t \<le> of_int (N * 2 ^ d) * pow2 t"
    using pow2_pos [of t] by (simp add: mult_right_mono)
  moreover have "of_int (N * 2 ^ d) * pow2 t = of_int N * pow2 s"
    by (simp add: ps mult_ac)
  ultimately have up: "of_int r * pow2 t \<le> of_int N * pow2 s"
    by (simp only:)
  have "0 \<le> x / pow2 t" using x0 pow2_pos [of t] by simp
  then have "0 \<le> r" using round_even_ge [of 0 "x / pow2 t"] by (simp add: r_def)
  then have lo: "0 \<le> of_int r * pow2 t" using pow2_pos [of t] by simp
  have "\<not> pow2 1024 \<le> of_int r * pow2 t" using up assms(5) by simp
  then have "f64 x = Some (of_int r * pow2 t)"
    using x0 by (simp add: f64_def Let_def r_def t_def e_def)
  then show ?thesis using up lo by (simp add: f64_within_def)
qed

text \<open>
  The ratio of a 32-bit counter to the number of rows of a block that holds a row is
  at most \<open>2 ^ 32\<close>; scaled by \<open>piecewise\<close> it is at most \<open>40 * 2 ^ 32\<close>.
\<close>

lemma ratio_within:
  assumes "cnt < 2 ^ 32" "0 < rows" "rows < 2 ^ 32"
  shows "f64_within (f64_div (f64 (of_nat cnt)) (f64 (of_int rows))) (2 ^ 32)"
proof -
  have c: "f64 (of_nat cnt) = Some (of_nat cnt)"
    using assms(1) by (intro f64_of_nat_exact) simp
  have r: "f64 (of_int rows) = Some (of_int rows)"
    using assms(2,3) by (intro f64_of_int_exact) simp_all
  have r1: "(1::rat) \<le> of_int rows" using assms(2) by simp
  have "(of_nat cnt :: rat) \<le> 2 ^ 32" using assms(1) by simp
  then have "(of_nat cnt :: rat) / of_int rows \<le> 2 ^ 32 / 1"
    using r1 by (intro frac_le) simp_all
  then have q: "(of_nat cnt :: rat) / of_int rows \<le> of_int 1 * pow2 32"
    by (simp add: pow2_def)
  have "f64_within (f64 (of_nat cnt / of_int rows)) (of_int 1 * pow2 32)"
  proof (rule f64_upper [OF _ q])
    show "(0::rat) \<le> of_nat cnt / of_int rows" using assms(2) by simp
    show "(of_nat cnt :: rat) / of_int rows < pow2 (32 + 53)"
      using q by (simp add: pow2_def)
  qed (simp_all add: pow2_def)
  then show ?thesis using assms(2) by (simp add: f64_div_def c r pow2_def)
qed

lemma piecewise_le: "0 \<le> r \<Longrightarrow> piecewise r \<le> 40 * r"
  by (simp add: piecewise_def)

lemma piecewise_f64_within:
  assumes "f64_within r (2 ^ 32)"
  shows "f64_within (piecewise_f64 r) (40 * 2 ^ 32)"
proof -
  obtain x where x: "r = Some x" "0 \<le> x" "x \<le> 2 ^ 32"
    using assms by (cases r) (simp_all add: f64_within_def)
  have le: "piecewise x \<le> of_int 40 * pow2 32"
    using piecewise_le [OF x(2)] x(3) by (simp add: pow2_def)
  have "f64_within (f64 (piecewise x)) (of_int 40 * pow2 32)"
  proof (rule f64_upper [OF _ le])
    show "0 \<le> piecewise x" using x(2) by (rule piecewise_nonneg)
    show "piecewise x < pow2 (32 + 53)" using le by (simp add: pow2_def)
  qed (simp_all add: pow2_def)
  then show ?thesis by (simp add: piecewise_f64_def x(1) pow2_def)
qed

text \<open>The sum of at most \<open>65536\<close> such terms stays below \<open>2 ^ 54\<close>.\<close>

lemma f64_add_within:
  assumes "f64_within a (of_int j * (40 * 2 ^ 32))" "f64_within b (40 * 2 ^ 32)" "j < 65536"
  shows "f64_within (f64_add a b) (of_int (j + 1) * (40 * 2 ^ 32))"
proof -
  obtain x where x: "a = Some x" "0 \<le> x" "x \<le> of_int j * (40 * 2 ^ 32)"
    using assms(1) by (cases a) (simp_all add: f64_within_def)
  obtain y where y: "b = Some y" "0 \<le> y" "y \<le> 40 * 2 ^ 32"
    using assms(2) by (cases b) (simp_all add: f64_within_def)
  have le: "x + y \<le> of_int (40 * (j + 1)) * pow2 32"
    using x(3) y(3) by (simp add: pow2_def algebra_simps)
  have "(of_int (j + 1) :: rat) \<le> 65536" using assms(3) by simp
  then have "of_int (40 * (j + 1)) * pow2 32 \<le> (40 * 65536) * (2 ^ 32 :: rat)"
    by (simp add: pow2_def)
  then have small: "of_int (40 * (j + 1)) * pow2 32 < pow2 54"
    by (simp add: pow2_def)
  have "f64_within (f64 (x + y)) (of_int (40 * (j + 1)) * pow2 32)"
  proof (rule f64_upper [OF _ le])
    show "0 \<le> x + y" using x(2) y(2) by simp
    show "x + y < pow2 (32 + 53)"
      using le small pow2_less_mono [of 54 "32 + 53"] by simp
    show "of_int (40 * (j + 1)) * pow2 32 < pow2 1024"
      using small pow2_less_mono [of 54 1024] by simp
  qed simp
  then show ?thesis by (simp add: f64_add_def x(1) y(1) pow2_def algebra_simps)
qed

lemma foldl_f64_add_within:
  assumes "list_all (\<lambda>b. f64_within b (40 * 2 ^ 32)) xs"
    and "f64_within f (of_int j * (40 * 2 ^ 32))" "0 \<le> j" "j + int (length xs) \<le> 65536"
  shows "f64_within (foldl f64_add f xs) (of_int (j + int (length xs)) * (40 * 2 ^ 32))"
  using assms
proof (induction xs arbitrary: f j)
  case Nil
  then show ?case by simp
next
  case (Cons b xs)
  have step: "f64_within (f64_add f b) (of_int (j + 1) * (40 * 2 ^ 32))"
    using Cons.prems by (intro f64_add_within) simp_all
  have eq: "j + 1 + int (length xs) = j + int (length (b # xs))"
    by simp
  have "f64_within (foldl f64_add (f64_add f b) xs)
          (of_int (j + 1 + int (length xs)) * (40 * 2 ^ 32))"
    using Cons.prems by (intro Cons.IH step) simp_all
  from this [unfolded eq] show ?case by simp
qed

lemma f64_within_round:
  assumes "0 \<le> x" "x \<le> of_int N * pow2 32" "N \<le> 2 ^ 20"
  shows "f64_within (f64 x) (of_int N * pow2 32)"
proof (rule f64_upper [OF assms(1,2)])
  have "(of_int N :: rat) \<le> 2 ^ 20" using assms(3) by simp
  then have "of_int N * pow2 32 \<le> 2 ^ 20 * pow2 32"
    using pow2_pos [of 32] by (simp add: mult_right_mono)
  also have "\<dots> = pow2 52" by (simp add: pow2_def)
  finally have b: "of_int N * pow2 32 \<le> pow2 52" .
  show "x < pow2 (32 + 53)"
    using assms(2) b pow2_less_mono [of 52 "32 + 53"] by simp
  show "of_int N * pow2 32 < pow2 1024"
    using b pow2_less_mono [of 52 1024] by simp
qed simp

lemma Rows_less: "Rows blk < 2 ^ 32"
  using uint_lt2p [of "node_Rows blk"] uint_lt2p [of "file_ReadRows blk"]
  by (simp add: Rows_def)

text \<open>
  On a block that holds a row and has a column (at most \<open>65536\<close> columns), with
  counters of at most 32 bits, every value of the computation is finite,
  \<open>factor * 100\<close> stays below \<open>9000 * 2 ^ 32\<close>, and the score is at least 1.
\<close>

lemma spec_score_defined:
  assumes rows: "0 < Rows blk"
    and cols: "ColDefs (GetSchema (meta blk)) \<noteq> []"
      "length (ColDefs (GetSchema (meta blk))) \<le> 65536"
    and upd: "\<And>i. i < length (ColDefs (GetSchema (meta blk))) \<Longrightarrow>
                GetColumnUpdateCnt (mvcc blk) i < 2 ^ 32"
    and del: "GetDeleteCnt (mvcc blk) < 2 ^ 32"
  shows "\<exists>s. spec_score blk = Some s \<and> 1 \<le> s"
proof -
  define n where "n = length (ColDefs (GetSchema (meta blk)))"
  define terms where "terms = map (\<lambda>i. piecewise_f64 (update_ratio blk i)) [0 ..< n]"
  have n: "0 < n" "n \<le> 65536" using cols by (simp_all add: n_def)
  have each: "f64_within (piecewise_f64 (update_ratio blk i)) (40 * 2 ^ 32)" if "i < n" for i
    unfolding update_ratio_def
  proof (rule piecewise_f64_within, rule ratio_within)
    show "GetColumnUpdateCnt (mvcc blk) i < 2 ^ 32" using upd that by (simp add: n_def)
    show "0 < Rows blk" by (rule rows)
    show "Rows blk < 2 ^ 32" by (rule Rows_less)
  qed
  have "list_all (\<lambda>b. f64_within b (40 * 2 ^ 32)) terms"
    unfolding terms_def list_all_iff using each by auto
  moreover have "f64_within (f64 0) (of_int 0 * (40 * 2 ^ 32))"
    by (simp add: f64_0 f64_within_def)
  ultimately have "f64_within (foldl f64_add (f64 0) terms)
      (of_int (0 + int (length terms)) * (40 * 2 ^ 32))"
    using n by (intro foldl_f64_add_within) (simp_all add: terms_def)
  then obtain S where S: "f64_sum terms = Some S" "0 \<le> S" "S \<le> of_nat n * (40 * 2 ^ 32)"
    by (cases "foldl f64_add (f64 0) terms") (simp_all add: f64_within_def f64_sum_def terms_def)
  have fn: "f64 (of_nat n) = Some (of_nat n)"
    using n(2) by (intro f64_of_nat_exact) simp
  have "S / of_nat n \<le> 40 * 2 ^ 32"
    using S(3) n(1) by (simp add: field_simps)
  then have "f64_within (f64 (S / of_nat n)) (of_int 40 * pow2 32)"
    using S(2) by (intro f64_within_round) (simp_all add: pow2_def)
  then obtain m where m: "f64_div (f64_sum terms) (f64 (of_nat n)) = Some m" "0 \<le> m"
      "m \<le> 40 * 2 ^ 32"
    using n(1) by (cases "f64 (S / of_nat n)") (simp_all add: f64_within_def f64_div_def S(1) fn pow2_def)
  have "f64_within (delete_ratio blk) (2 ^ 32)"
    unfolding delete_ratio_def using del rows Rows_less [of blk] by (intro ratio_within)
  then obtain d where d: "delete_ratio blk = Some d" "0 \<le> d" "d \<le> 2 ^ 32"
    by (cases "delete_ratio blk") (simp_all add: f64_within_def)
  have "f64_within (f64 (d * 50)) (of_int 50 * pow2 32)"
    using d(2,3) by (intro f64_within_round) (simp_all add: pow2_def)
  then obtain q where q: "f64_mul (delete_ratio blk) (f64 50) = Some q" "0 \<le> q"
      "q \<le> 50 * 2 ^ 32"
    by (cases "f64 (d * 50)") (simp_all add: f64_within_def f64_mul_def d(1) f64_50 pow2_def)
  have "f64_within (f64 (m + q)) (of_int 90 * pow2 32)"
    using m(2,3) q(2,3) by (intro f64_within_round) (simp_all add: pow2_def)
  then obtain v where v: "spec_factor_f64 blk = Some v" "0 \<le> v" "v \<le> 90 * 2 ^ 32"
    using m(1) q(1)
    by (cases "f64 (m + q)")
       (simp_all add: f64_within_def f64_add_def spec_factor_f64_def terms_def n_def pow2_def)
  have "f64_within (f64 (v * 100)) (of_int 9000 * pow2 32)"
    using v(2,3) by (intro f64_within_round) (simp_all add: pow2_def)
  then obtain x where x: "f64_mul (spec_factor_f64 blk) (f64 100) = Some x" "0 \<le> x"
      "x \<le> 9000 * 2 ^ 32"
    by (cases "f64 (v * 100)") (simp_all add: f64_within_def f64_mul_def v(1) f64_100 pow2_def)
  have "of_int (go_int x) \<le> x" using x(2) by (simp add: go_int_def)
  then have "(of_int (go_int x) :: rat) < of_int (2 ^ 63)" using x(3) by simp
  then have "go_int x < 2 ^ 63" by (simp only: of_int_less_iff)
  then have "spec_score blk = Some (max 1 (go_int x))"
    by (simp add: spec_score_def x(1))
  then show ?thesis by simp
qed

lemma spec_factor_deleted3_blk: "spec_factor deleted3_blk = 75 / 8"
  by (simp add: spec_factor_def Rows_deleted3_blk)
     (simp add: deleted3_blk_def piecewise_def)

lemma spec_factor_upd11_blk: "spec_factor upd11_blk = 11 / 50"
  by (simp add: spec_factor_def Rows_upd11_blk)
     (simp add: upd11_blk_def piecewise_def)

text \<open>
  C2 (as amended). \<open>estimateRawScore\<close> returns 100 for an appendable block whose row
  count equals \<open>BlockMaxRows\<close>; otherwise 0 for a block without changes that is
  immutable, or appendable with \<open>maxVisible \<le> ckpTs\<close>; otherwise, on a block of at
  most \<open>65536\<close> columns (the column index is a \<open>uint16\<close>), \<open>max 1 (int (factor * 100))\<close>,
  where \<open>factor\<close> is the mean over the columns of \<open>piecewise\<close> of the column's update
  ratio plus fifty times the delete ratio, every quotient, product and sum of it
  rounded to \<open>float64\<close> and the columns summed in their order, and where the conversion
  to \<open>int\<close> truncates: it does not round to the nearest integer. This score is
  defined and at least 1 on every block that holds a row and has a column, with
  counters of at most 32 bits. (Without a row or a column the ratios divide by zero
  and the result is left to the Go implementation.)
\<close>

theorem estimateRawScore_truncates:
  assumes "length (ColDefs (GetSchema (meta blk))) \<le> 65536"
  shows "estimateRawScore blk =
     (if IsAppendable (meta blk) \<and> Rows blk = uint (BlockMaxRows (GetSchema (meta blk)))
      then Some 100
      else if GetChangeNodeCnt (mvcc blk) = 0 \<and>
              (LoadMaxVisible (mvcc blk) \<le> ckpTs blk \<or> \<not> IsAppendable (meta blk))
      then Some 0
      else spec_score blk)
   \<and> (0 < Rows blk \<and> ColDefs (GetSchema (meta blk)) \<noteq> [] \<and>
      (\<forall>i < length (ColDefs (GetSchema (meta blk))). GetColumnUpdateCnt (mvcc blk) i < 2 ^ 32) \<and>
      GetDeleteCnt (mvcc blk) < 2 ^ 32 \<longrightarrow>
      (\<exists>s. spec_score blk = Some s \<and> 1 \<le> s))"
  using estimateRawScore_spec_score [OF assms] spec_score_defined [of blk] assms by blast

theorem estimateRawScore_truncates_witness:
  "length (ColDefs (GetSchema (meta deleted3_blk))) \<le> 65536
   \<and> 0 < Rows deleted3_blk \<and> ColDefs (GetSchema (meta deleted3_blk)) \<noteq> []
   \<and> GetColumnUpdateCnt (mvcc deleted3_blk) 0 < 2 ^ 32
   \<and> GetDeleteCnt (mvcc deleted3_blk) < 2 ^ 32
   \<and> spec_score deleted3_blk = Some 937
   \<and> estimateRawScore full_blk = Some 100 \<and> estimateRawScore sealed_blk = Some 0"
proof -
  have d: "Rows deleted3_blk \<noteq> uint (BlockMaxRows (GetSchema (meta deleted3_blk)))"
    "GetChangeNodeCnt (mvcc deleted3_blk) \<noteq> 0"
    "length (ColDefs (GetSchema (meta deleted3_blk))) \<le> 65536"
    "ColDefs (GetSchema (meta deleted3_blk)) \<noteq> []"
    "GetColumnUpdateCnt (mvcc deleted3_blk) 0 < 2 ^ 32"
    "GetDeleteCnt (mvcc deleted3_blk) < 2 ^ 32"
    by (simp_all add: Rows_deleted3_blk) (simp_all add: deleted3_blk_def)
  have f: "IsAppendable (meta full_blk)"
    "Rows full_blk = uint (BlockMaxRows (GetSchema (meta full_blk)))"
    "length (ColDefs (GetSchema (meta full_blk))) \<le> 65536"
    by (simp_all add: Rows_full_blk) (simp_all add: full_blk_def)
  have s: "\<not> IsAppendable (meta sealed_blk)" "GetChangeNodeCnt (mvcc sealed_blk) = 0"
    "length (ColDefs (GetSchema (meta sealed_blk))) \<le> 65536"
    by (simp_all add: sealed_blk_def full_blk_def)
  show ?thesis
    using estimateRawScore_truncates [OF d(3)] estimateRawScore_truncates [OF f(3)]
      estimateRawScore_truncates [OF s(3)] d f s estimateRawScore_deleted3_blk
    by (simp add: Rows_deleted3_blk)
qed

text \<open>
  The claim as stated, with \<open>round (factor * 100)\<close>, fails on the block of sixteen rows
  with three deleted rows: \<open>factor * 100 = 937.5\<close> (in \<open>float64\<close> as in exact
  arithmetic), the source returns 937 and rounding gives 938.
\<close>

theorem estimateRawScore_round_counterexample:
  "estimateRawScore deleted3_blk = Some 937
   \<and> max 1 (round (spec_factor deleted3_blk * 100)) = 938"
  by (simp add: estimateRawScore_deleted3_blk spec_factor_deleted3_blk round_def floor_eq_iff)

text \<open>
  The rounding of \<open>float64\<close> shows on the block of a thousand rows with eleven updates:
  the source returns 21, where the formula in exact arithmetic gives 22, truncated or
  rounded.
\<close>

lemma estimateRawScore_float_rounding:
  "estimateRawScore upd11_blk = Some 21
   \<and> max 1 (go_int (spec_factor upd11_blk * 100)) = 22
   \<and> max 1 (round (spec_factor upd11_blk * 100)) = 22"
  by (simp add: estimateRawScore_upd11_blk spec_factor_upd11_blk go_int_def)

text \<open>
  C9 (as amended). At an update ratio of exactly \<open>0.005\<close> the if-chain of
  \<open>estimateRawScore\<close> takes its second branch and multiplies by 20; the first branch
  (times 10) is taken by the ratios strictly below \<open>0.005\<close> and by no other.
\<close>

theorem colFactor_branch_at_threshold:
  "colFactor_branch (5 / 1000) = 20 * (5 / 1000)
   \<and> ((colFactor_branch r = 10 * r) = (r < 5 / 1000))"
  by (simp add: colFactor_branch_def)

text \<open>
  The claim as stated fails at \<open>0.005\<close> itself; accordingly a block of two hundred rows
  whose only column carries one update scores \<open>int (0.005 * 20 * 100) = 10\<close>, where the
  first branch would give 5.
\<close>

theorem colFactor_branch_first_counterexample:
  "colFactor_branch (5 / 1000) \<noteq> 10 * (5 / 1000) \<and> estimateRawScore ratio005_blk = Some 10"
  by (simp add: colFactor_branch_def estimateRawScore_ratio005_blk)

subsection \<open>The age adder and the effective score\<close>

lemma estimateRawScore_zero_not_full:
  assumes "estimateRawScore blk = Some 0"
  shows "\<not> (IsAppendable (meta blk) \<and> Rows blk = uint (BlockMaxRows (GetSchema (meta blk))))"
  using assms by (auto simp: estimateRawScore_def)

text \<open>
  C6. A calibration tick with a non-zero raw score adds one to \<open>nice\<close> (in 32-bit
  unsigned arithmetic, as \<open>atomic.AddUint32\<close> does) and a tick with raw score 0 leaves
  it; \<open>EstimateScore\<close> on a block of raw score 0 returns 0 and stores 0 in \<open>nice\<close>; on
  a block of non-zero raw score that is not a full appendable block it returns the raw
  score plus \<open>nice\<close>; a full appendable block that is not dropped scores 100.
\<close>

theorem nice_age_adder:
  "(estimateRawScore blk = Some s \<and> s \<noteq> 0 \<longrightarrow>
      RunCalibration blk = Some (blk\<lparr>nice := nice blk + 1\<rparr>))
   \<and> (estimateRawScore blk = Some 0 \<longrightarrow>
      RunCalibration blk = Some blk \<and> EstimateScore blk = Some (0, blk\<lparr>nice := 0\<rparr>))
   \<and> (estimateRawScore blk = Some s \<and> s \<noteq> 0 \<and>
      \<not> (IsAppendable (meta blk) \<and> Rows blk = uint (BlockMaxRows (GetSchema (meta blk)))) \<longrightarrow>
      EstimateScore blk = Some (s + uint (nice blk), blk))
   \<and> (IsAppendable (meta blk) \<and> Rows blk = uint (BlockMaxRows (GetSchema (meta blk))) \<and>
      \<not> IsDroppedCommitted (meta blk) \<and> \<not> IsDroppedUncommitted (meta blk) \<longrightarrow>
      EstimateScore blk = Some (100, blk))"
proof -
  have inc: "estimateRawScore blk = Some s \<and> s \<noteq> 0 \<longrightarrow>
      RunCalibration blk = Some (blk\<lparr>nice := nice blk + 1\<rparr>)"
    by (simp add: RunCalibration_def)
  have reset: "estimateRawScore blk = Some 0 \<longrightarrow>
      RunCalibration blk = Some blk \<and> EstimateScore blk = Some (0, blk\<lparr>nice := 0\<rparr>)"
    using estimateRawScore_zero_not_full [of blk]
    by (auto simp: RunCalibration_def EstimateScore_def resetNice_def)
  have add: "estimateRawScore blk = Some s \<and> s \<noteq> 0 \<and>
      \<not> (IsAppendable (meta blk) \<and> Rows blk = uint (BlockMaxRows (GetSchema (meta blk)))) \<longrightarrow>
      EstimateScore blk = Some (s + uint (nice blk), blk)"
    by (auto simp: EstimateScore_def)
  have full: "IsAppendable (meta blk) \<and> Rows blk = uint (BlockMaxRows (GetSchema (meta blk))) \<and>
      \<not> IsDroppedCommitted (meta blk) \<and> \<not> IsDroppedUncommitted (meta blk) \<longrightarrow>
      EstimateScore blk = Some (100, blk)"
    by (simp add: EstimateScore_def)
  from inc reset add full show ?thesis by blast
qed

theorem nice_age_adder_witness:
  "RunCalibration deleted3_blk = Some (deleted3_blk\<lparr>nice := 8\<rparr>)
   \<and> EstimateScore deleted3_blk = Some (944, deleted3_blk)
   \<and> RunCalibration sealed_blk = Some sealed_blk
   \<and> EstimateScore sealed_blk = Some (0, sealed_blk\<lparr>nice := 0\<rparr>)
   \<and> nice sealed_blk = 3
   \<and> EstimateScore full_blk = Some (100, full_blk)"
proof -
  have a: "\<not> (IsAppendable (meta deleted3_blk) \<and>
     Rows deleted3_blk = uint (BlockMaxRows (GetSchema (meta deleted3_blk))))"
    by (simp add: Rows_deleted3_blk) (simp add: deleted3_blk_def)
  have n: "nice deleted3_blk = 7" "nice sealed_blk = 3"
    by (simp_all add: deleted3_blk_def sealed_blk_def full_blk_def)
  have f: "IsAppendable (meta full_blk)"
    "Rows full_blk = uint (BlockMaxRows (GetSchema (meta full_blk)))"
    "\<not> IsDroppedCommitted (meta full_blk)" "\<not> IsDroppedUncommitted (meta full_blk)"
    by (simp_all add: Rows_full_blk) (simp_all add: full_blk_def)
  show ?thesis
    using nice_age_adder [of deleted3_blk 937] nice_age_adder [of sealed_blk 0]
      nice_age_adder [of full_blk 100]
      estimateRawScore_deleted3_blk estimateRawScore_sealed_blk a n f
    by simp
qed

text \<open>
  C10. On an appendable block whose row count equals \<open>BlockMaxRows\<close>, \<open>EstimateScore\<close>
  returns 0 when the catalog entry is dropped (committed or not) and 100 otherwise,
  and leaves the block as it is.
\<close>

theorem EstimateScore_full_appendable:
  assumes "IsAppendable (meta blk)"
    and "Rows blk = uint (BlockMaxRows (GetSchema (meta blk)))"
  shows "EstimateScore blk =
           Some (if IsDroppedCommitted (meta blk) \<or> IsDroppedUncommitted (meta blk)
                 then 0 else 100, blk)"
  using assms by (simp add: EstimateScore_def)

theorem EstimateScore_full_appendable_witness:
  "EstimateScore full_dropped_blk = Some (0, full_dropped_blk)
   \<and> EstimateScore full_blk = Some (100, full_blk)"
proof -
  have d: "IsAppendable (meta full_dropped_blk)"
    "Rows full_dropped_blk = uint (BlockMaxRows (GetSchema (meta full_dropped_blk)))"
    by (simp_all add: Rows_full_dropped_blk) (simp_all add: full_dropped_blk_def full_blk_def)
  have f: "IsAppendable (meta full_blk)"
    "Rows full_blk = uint (BlockMaxRows (GetSchema (meta full_blk)))"
    by (simp_all add: Rows_full_blk) (simp_all add: full_blk_def)
  have "IsDroppedUncommitted (meta full_dropped_blk)"
    by (simp add: full_dropped_blk_def)
  moreover have "\<not> IsDroppedCommitted (meta full_blk)" "\<not> IsDroppedUncommitted (meta full_blk)"
    by (simp_all add: full_blk_def)
  ultimately show ?thesis
    using EstimateScore_full_appendable [OF d] EstimateScore_full_appendable [OF f]
    by simp
qed

subsection \<open>The compaction task factory\<close>

text \<open>
  C5. \<open>BuildCompactionTaskFactory\<close> returns no factory (and no scope) when the catalog
  entry is dropped-committed or has an active transaction. Otherwise it returns a
  \<open>CompactBlock\<close> factory when the block is not appendable or is appendable with a row
  count equal to \<open>BlockMaxRows\<close>, and a \<open>CompactABlock\<close> factory for every other
  appendable block; in both cases the scope is the list of this block's id alone.
\<close>

theorem BuildCompactionTaskFactory_cases:
  "BuildCompactionTaskFactory blk =
     (if IsDroppedCommitted (meta blk) \<or> HasActiveTxn (meta blk)
      then \<lparr>factory = None, taskType = NoopTask, scopes = []\<rparr>
      else if Rows blk = uint (BlockMaxRows (GetSchema (meta blk))) \<or> \<not> IsAppendable (meta blk)
      then \<lparr>factory = Some (CompactBlockTaskFactory (AsCommonID (meta blk))),
            taskType = DataCompactionTask, scopes = [AsCommonID (meta blk)]\<rparr>
      else \<lparr>factory = Some (CompactABlockTaskFactory (AsCommonID (meta blk))),
            taskType = DataCompactionTask, scopes = [AsCommonID (meta blk)]\<rparr>)"
  by (simp add: BuildCompactionTaskFactory_def Let_def)

theorem BuildCompactionTaskFactory_cases_witness:
  "BuildCompactionTaskFactory full_blk =
     \<lparr>factory = Some (CompactBlockTaskFactory 1), taskType = DataCompactionTask, scopes = [1]\<rparr>
   \<and> BuildCompactionTaskFactory half_blk =
     \<lparr>factory = Some (CompactABlockTaskFactory 1), taskType = DataCompactionTask, scopes = [1]\<rparr>
   \<and> BuildCompactionTaskFactory sealed_blk =
     \<lparr>factory = Some (CompactBlockTaskFactory 1), taskType = DataCompactionTask, scopes = [1]\<rparr>
   \<and> BuildCompactionTaskFactory (full_blk\<lparr>meta := (meta full_blk)\<lparr>HasActiveTxn := True\<rparr>\<rparr>) =
     \<lparr>factory = None, taskType = NoopTask, scopes = []\<rparr>"
  using BuildCompactionTaskFactory_cases [of full_blk]
        BuildCompactionTaskFactory_cases [of half_blk]
        BuildCompactionTaskFactory_cases [of sealed_blk]
        BuildCompactionTaskFactory_cases [of "full_blk\<lparr>meta := (meta full_blk)\<lparr>HasActiveTxn := True\<rparr>\<rparr>"]
  by (simp add: Rows_full_blk Rows_half_blk Rows_sealed_blk)
     (simp add: full_blk_def half_blk_def sealed_blk_def)

subsection \<open>Lookup on an immutable block\<close>

text \<open>
  C7 (as amended). On an immutable block with a sort key and an equality filter,
  \<open>GetByFilter\<close> returns \<open>ErrNotFound\<close> when \<open>index.Dedup\<close> returns nil (the key is
  absent), and returns the error of \<open>index.Dedup\<close> unchanged, with offset 0, when that
  error is not \<open>ErrPossibleDuplicate\<close>.
\<close>

theorem GetByFilter_immutable_Dedup_error:
  assumes "Op flt = FilterEq" and "SortKey (GetSchema (lk_meta blk)) \<noteq> None"
    and "\<not> IsAppendable (lk_meta blk)"
  shows "(index_Dedup blk (Val flt) = None \<longrightarrow>
            GetByFilter blk ts flt = (0, Some ErrNotFound))
       \<and> (\<forall>e. index_Dedup blk (Val flt) = Some e \<and> e \<noteq> ErrPossibleDuplicate \<longrightarrow>
            GetByFilter blk ts flt = (0, Some e))"
  using assms by (auto simp: GetByFilter_def blkGetByFilter_def)

theorem GetByFilter_immutable_Dedup_error_witness:
  "GetByFilter sealed_lookup 200 \<lparr>Op = FilterEq, Val = 2\<rparr> = (0, Some ErrNotFound)
   \<and> GetByFilter sealed_lookup 200 \<lparr>Op = FilterEq, Val = 9\<rparr> = (0, Some (ErrIO ''bloom filter''))"
proof -
  have m: "SortKey (GetSchema (lk_meta sealed_lookup)) \<noteq> None"
    "\<not> IsAppendable (lk_meta sealed_lookup)"
    by (simp_all add: sealed_lookup_def)
  have d: "index_Dedup sealed_lookup 2 = None"
    "index_Dedup sealed_lookup 9 = Some (ErrIO ''bloom filter'')"
    by (simp_all add: sealed_lookup_def)
  show ?thesis
    using GetByFilter_immutable_Dedup_error [of "\<lparr>Op = FilterEq, Val = 2\<rparr>" sealed_lookup 200]
      GetByFilter_immutable_Dedup_error [of "\<lparr>Op = FilterEq, Val = 9\<rparr>" sealed_lookup 200] m d
    by simp
qed

text \<open>
  The claim as stated, that such an error is replaced by \<open>ErrNotFound\<close>, fails on the
  block whose index fails on the key 9.
\<close>

theorem GetByFilter_NotFound_counterexample:
  "index_Dedup sealed_lookup 9 = Some (ErrIO ''bloom filter'')
   \<and> ErrIO ''bloom filter'' \<noteq> ErrPossibleDuplicate
   \<and> snd (GetByFilter sealed_lookup 200 \<lparr>Op = FilterEq, Val = 9\<rparr>) \<noteq> Some ErrNotFound"
  by (simp add: GetByFilter_def blkGetByFilter_def sealed_lookup_def)


subsection \<open>Destroy\<close>

text \<open>
  C8 (as amended). The first call of \<open>Destroy\<close> on a block runs the steps in order
  (close the appendable node, release every column file, destroy the index, close the
  block file, destroy it) and returns at the first step that fails, with the error of
  that step and without the steps after it; when no step fails, all are done.
\<close>

theorem Destroy_stops_at_first_error:
  assumes "\<not> closed blk"
  shows "(node_set blk \<and> node_Close out = Some e \<longrightarrow>
            Destroy out blk = (Some e, blk\<lparr>closed := True, node_closed := True\<rparr>))
       \<and> ((node_set blk \<longrightarrow> node_Close out = None) \<and> index_set blk \<and>
            index_Destroy out = Some e \<longrightarrow>
            Destroy out blk =
              (Some e, blk\<lparr>closed := True, node_closed := node_closed blk \<or> node_set blk,
                           unrefd := unrefd blk \<union> colFiles blk, colFiles := {},
                           index_destroyed := True\<rparr>))
       \<and> ((node_set blk \<longrightarrow> node_Close out = None) \<and>
            (index_set blk \<longrightarrow> index_Destroy out = None) \<and> file_set blk \<and>
            file_Close out = Some e \<longrightarrow>
            Destroy out blk =
              (Some e, blk\<lparr>closed := True, node_closed := node_closed blk \<or> node_set blk,
                           unrefd := unrefd blk \<union> colFiles blk, colFiles := {},
                           index_destroyed := index_destroyed blk \<or> index_set blk,
                           file_closed := True\<rparr>))
       \<and> ((node_set blk \<longrightarrow> node_Close out = None) \<and>
            (index_set blk \<longrightarrow> index_Destroy out = None) \<and>
            (file_set blk \<longrightarrow> file_Close out = None) \<longrightarrow>
            Destroy out blk =
              (if file_set blk then file_Destroy out else None,
               blk\<lparr>closed := True, node_closed := node_closed blk \<or> node_set blk,
                   unrefd := unrefd blk \<union> colFiles blk, colFiles := {},
                   index_destroyed := index_destroyed blk \<or> index_set blk,
                   file_closed := file_closed blk \<or> file_set blk,
                   file_destroyed := file_destroyed blk \<or> file_set blk\<rparr>))"
  using assms by (auto simp: Destroy_def Let_def)

theorem Destroy_stops_at_first_error_witness:
  "Destroy flush_fails open_blk =
     (Some (ErrIO ''flush''), open_blk\<lparr>closed := True, node_closed := True\<rparr>)
   \<and> Destroy all_ok open_blk =
     (None, open_blk\<lparr>closed := True, node_closed := True, unrefd := {0, 1}, colFiles := {},
                    index_destroyed := True, file_closed := True, file_destroyed := True\<rparr>)"
proof -
  have o: "\<not> closed open_blk" "node_set open_blk" "index_set open_blk" "file_set open_blk"
    by (simp_all add: open_blk_def)
  have f: "node_Close flush_fails = Some (ErrIO ''flush'')"
    by (simp add: flush_fails_def)
  have a: "node_Close all_ok = None" "index_Destroy all_ok = None" "file_Close all_ok = None"
    "file_Destroy all_ok = None"
    by (simp_all add: all_ok_def)
  show ?thesis
    using Destroy_stops_at_first_error [OF o(1), of flush_fails "ErrIO ''flush''"]
      Destroy_stops_at_first_error [OF o(1), of all_ok "ErrIO ''flush''"] o f a
    by (simp add: open_blk_def)
qed

text \<open>
  The claim as stated, that the remaining steps are still performed and the error is
  not propagated, fails when the closing of the node fails: no column file is released,
  the index and the block file are left as they are, and the caller gets the error.
\<close>

theorem Destroy_continues_counterexample:
  "fst (Destroy flush_fails open_blk) = Some (ErrIO ''flush'')
   \<and> unrefd (snd (Destroy flush_fails open_blk)) = {}
   \<and> colFiles (snd (Destroy flush_fails open_blk)) = {0, 1}
   \<and> \<not> index_destroyed (snd (Destroy flush_fails open_blk))
   \<and> \<not> file_closed (snd (Destroy flush_fails open_blk))
   \<and> \<not> file_destroyed (snd (Destroy flush_fails open_blk))"
  by (simp add: Destroy_def flush_fails_def all_ok_def open_blk_def)

subsection \<open>Reading a value\<close>

lemma latest_update_Some:
  "latest_update ns row ts best = Some (c, v) \<Longrightarrow>
     (best = Some (c, v) \<or>
      (\<exists>n \<in> set ns. un_commitTs n = Some c \<and> c \<le> ts \<and> un_vals n row = Some v))
     \<and> (\<forall>n' \<in> set ns. \<forall>c'. un_commitTs n' = Some c' \<and> c' \<le> ts \<and> row \<in> dom (un_vals n')
            \<longrightarrow> c' \<le> c)
     \<and> (\<forall>cb vb. best = Some (cb, vb) \<longrightarrow> cb \<le> c)"
proof (induction ns arbitrary: best)
  case Nil
  then show ?case by auto
next
  case (Cons n ns)
  let ?b = "(case (un_commitTs n, un_vals n row) of
          (Some c, Some v) \<Rightarrow>
            if c \<le> ts \<and> (case best of None \<Rightarrow> True | Some (c', _) \<Rightarrow> c' \<le> c)
            then Some (c, v) else best
        | _ \<Rightarrow> best)"
  from Cons.prems have "latest_update ns row ts ?b = Some (c, v)" by simp
  from Cons.IH [OF this] show ?case
    by (auto split: option.splits if_splits prod.splits)
qed

lemma latest_update_None:
  "latest_update ns row ts best = None \<longleftrightarrow>
     best = None \<and>
     (\<forall>n \<in> set ns. \<forall>c. un_commitTs n = Some c \<and> c \<le> ts \<longrightarrow> un_vals n row = None)"
  by (induction ns arbitrary: best) (auto split: option.splits if_splits prod.splits)

lemma fold_max_start: "(m :: nat) \<le> fold (\<lambda>n. max (f n)) vis m"
proof (induction vis arbitrary: m)
  case Nil
  show ?case by simp
next
  case (Cons x xs)
  have "m \<le> max (f x) m" by simp
  also have "\<dots> \<le> fold (\<lambda>n. max (f n)) xs (max (f x) m)" by (rule Cons.IH)
  finally show ?case by simp
qed

lemma fold_max_ge: "a \<in> set vis \<Longrightarrow> f a \<le> fold (\<lambda>n. max (f n)) vis (m :: nat)"
proof (induction vis arbitrary: m)
  case Nil
  then show ?case by simp
next
  case (Cons x xs)
  show ?case
  proof (cases "a = x")
    case True
    have "f x \<le> max (f x) m" by simp
    also have "\<dots> \<le> fold (\<lambda>n. max (f n)) xs (max (f x) m)" by (rule fold_max_start)
    finally show ?thesis using True by simp
  next
    case False
    with Cons.prems have "a \<in> set xs" by simp
    from Cons.IH [OF this] show ?thesis by simp
  qed
qed

lemma GetMaxVisibleRowLocked_covers:
  assumes "a \<in> set (appends h)" and "committed_at (an_commitTs a) ts"
    and "row < an_startRow a + an_length a"
  shows "\<exists>maxRow. GetMaxVisibleRowLocked h ts = (maxRow, True, None) \<and> row < maxRow"
proof -
  let ?vis = "filter (\<lambda>n. committed_at (an_commitTs n) ts) (appends h)"
  from assms have a: "a \<in> set ?vis" by simp
  have ne: "?vis \<noteq> []" using assms(1,2) by (auto simp: filter_empty_conv)
  from fold_max_ge [OF a, of "\<lambda>n. an_startRow n + an_length n" 0] assms(3)
  have "row < fold (\<lambda>n. max (an_startRow n + an_length n)) ?vis 0" by simp
  with ne show ?thesis by (simp add: GetMaxVisibleRowLocked_def Let_def)
qed


lemma IsDeletedLocked_deleted_at: "IsDeletedLocked h row ts = (deleted_at h row ts, None)"
  by (auto simp: IsDeletedLocked_def deleted_at_def list_ex_iff committed_at_def
      split: option.splits)

lemma GetValueLocked_none:
  assumes "\<not> (\<exists>n \<in> set chain. \<exists>c v. visible_update n row ts c v)"
  shows "GetValueLocked chain row ts = (None, Some ErrNotFound)"
proof -
  from assms have "latest_update chain row ts None = None"
    unfolding latest_update_None visible_update_def
    by (metis option.exhaust)
  then show ?thesis by (simp add: GetValueLocked_def)
qed

lemma GetValueLocked_some:
  assumes "\<exists>n \<in> set chain. \<exists>c v. visible_update n row ts c v"
  shows "\<exists>n \<in> set chain. \<exists>c v. visible_update n row ts c v \<and>
           (\<forall>n' \<in> set chain. \<forall>c' v'. visible_update n' row ts c' v' \<longrightarrow> c' \<le> c) \<and>
           GetValueLocked chain row ts = (Some v, None)"
proof -
  from assms have "latest_update chain row ts None \<noteq> None"
    unfolding latest_update_None visible_update_def by auto
  then obtain c v where l: "latest_update chain row ts None = Some (c, v)" by auto
  from latest_update_Some [OF l]
  obtain n where n: "n \<in> set chain" "un_commitTs n = Some c" "c \<le> ts" "un_vals n row = Some v"
    and mx: "\<forall>n' \<in> set chain. \<forall>c'. un_commitTs n' = Some c' \<and> c' \<le> ts \<and>
               row \<in> dom (un_vals n') \<longrightarrow> c' \<le> c"
    by auto
  have "\<forall>n' \<in> set chain. \<forall>c' v'. visible_update n' row ts c' v' \<longrightarrow> c' \<le> c"
    using mx by (auto simp: visible_update_def)
  moreover have "GetValueLocked chain row ts = (Some v, None)"
    using l by (simp add: GetValueLocked_def)
  moreover have "visible_update n row ts c v"
    using n by (simp add: visible_update_def)
  ultimately show ?thesis using n(1) by blast
qed

lemma base_read_appendable:
  assumes nd: "vb_node blk = Some nd" and vis: "row_visible (vb_mvcc blk) nd ts row"
    and len: "row < length (nd_data nd col)"
  shows "(case fst (getVectorCopy blk ts col) of
            None \<Rightarrow> (None, Some GoPanic)
          | Some view \<Rightarrow> compute_GetValue (RawVec view) row) = (Some (nd_data nd col ! row), None)"
proof (cases "ts \<ge> maxVisible (vb_mvcc blk)")
  case True
  with vis have "row < nd_rows nd" by (simp add: row_visible_def)
  with True nd len show ?thesis
    by (simp add: getVectorCopy_def GetMaxVisibleTS_def GetVectorCopy_def compute_GetValue_def)
next
  case False
  with vis obtain a c where a: "a \<in> set (appends (vb_mvcc blk))" "an_commitTs a = Some c" "c \<le> ts"
    "row < an_startRow a + an_length a"
    by (auto simp: row_visible_def)
  then have "committed_at (an_commitTs a) ts" by (simp add: committed_at_def)
  from GetMaxVisibleRowLocked_covers [OF a(1) this a(4)]
  obtain maxRow where "GetMaxVisibleRowLocked (vb_mvcc blk) ts = (maxRow, True, None)" "row < maxRow"
    by blast
  with False nd len show ?thesis
    by (simp add: getVectorCopy_def GetMaxVisibleTS_def GetVectorCopy_def compute_GetValue_def)
qed

text \<open>
  C1 (as amended). Let \<open>c\<close> be a column of the handle. If row \<open>r\<close> is deleted at the
  start timestamp of the transaction, \<open>GetValue\<close> returns \<open>ErrNotFound\<close>. Otherwise, if
  some committed update of \<open>(r, c)\<close> is visible at the start timestamp, it returns the
  value of one whose commit timestamp is the greatest among them. Otherwise it returns
  the base value: from the buffer of the node when the block is appendable, provided
  the row is visible at the start timestamp and in the buffer; from the column file
  when the block is immutable, provided the row is in the file.
\<close>

theorem GetValue_last_writer_wins:
  assumes col: "col < length (columns (vb_mvcc blk))"
  shows
    "(deleted_at (vb_mvcc blk) row (GetStartTS txn) \<longrightarrow>
        GetValue blk txn row col = (None, Some ErrNotFound))
   \<and> (\<not> deleted_at (vb_mvcc blk) row (GetStartTS txn) \<and>
      (\<exists>n \<in> set (columns (vb_mvcc blk) ! col). \<exists>c v. visible_update n row (GetStartTS txn) c v) \<longrightarrow>
        (\<exists>n \<in> set (columns (vb_mvcc blk) ! col). \<exists>c v.
            visible_update n row (GetStartTS txn) c v \<and>
            (\<forall>n' \<in> set (columns (vb_mvcc blk) ! col). \<forall>c' v'.
                visible_update n' row (GetStartTS txn) c' v' \<longrightarrow> c' \<le> c) \<and>
            GetValue blk txn row col = (Some v, None)))
   \<and> (\<not> deleted_at (vb_mvcc blk) row (GetStartTS txn) \<and>
      \<not> (\<exists>n \<in> set (columns (vb_mvcc blk) ! col). \<exists>c v. visible_update n row (GetStartTS txn) c v) \<and>
      IsAppendable (vb_meta blk) \<and> vb_node blk = Some nd \<and>
      row_visible (vb_mvcc blk) nd (GetStartTS txn) row \<and> row < length (nd_data nd col) \<longrightarrow>
        GetValue blk txn row col = (Some (nd_data nd col ! row), None))
   \<and> (\<not> deleted_at (vb_mvcc blk) row (GetStartTS txn) \<and>
      \<not> (\<exists>n \<in> set (columns (vb_mvcc blk) ! col). \<exists>c v. visible_update n row (GetStartTS txn) c v) \<and>
      \<not> IsAppendable (vb_meta blk) \<and> row < length (fst (colFile blk col)) \<longrightarrow>
        GetValue blk txn row col = (Some (fst (colFile blk col) ! row), None))"
proof -
  let ?ts = "GetStartTS txn"
  let ?chain = "columns (vb_mvcc blk) ! col"
  have del: "deleted_at (vb_mvcc blk) row ?ts \<longrightarrow>
        GetValue blk txn row col = (None, Some ErrNotFound)"
    by (simp add: GetValue_def IsDeletedLocked_deleted_at)
  have upd: "\<not> deleted_at (vb_mvcc blk) row ?ts \<and>
      (\<exists>n \<in> set ?chain. \<exists>c v. visible_update n row ?ts c v) \<longrightarrow>
        (\<exists>n \<in> set ?chain. \<exists>c v.
            visible_update n row ?ts c v \<and>
            (\<forall>n' \<in> set ?chain. \<forall>c' v'. visible_update n' row ?ts c' v' \<longrightarrow> c' \<le> c) \<and>
            GetValue blk txn row col = (Some v, None))"
  proof (intro impI, elim conjE)
    assume nd: "\<not> deleted_at (vb_mvcc blk) row ?ts"
      and ex: "\<exists>n \<in> set ?chain. \<exists>c v. visible_update n row ?ts c v"
    from GetValueLocked_some [OF ex]
    obtain n c v where n: "n \<in> set ?chain" "visible_update n row ?ts c v"
      "\<forall>n' \<in> set ?chain. \<forall>c' v'. visible_update n' row ?ts c' v' \<longrightarrow> c' \<le> c"
      "GetValueLocked ?chain row ?ts = (Some v, None)"
      by blast
    have "GetValue blk txn row col = (Some v, None)"
      using nd col n(4) by (simp add: GetValue_def IsDeletedLocked_deleted_at)
    with n show "\<exists>n \<in> set ?chain. \<exists>c v.
            visible_update n row ?ts c v \<and>
            (\<forall>n' \<in> set ?chain. \<forall>c' v'. visible_update n' row ?ts c' v' \<longrightarrow> c' \<le> c) \<and>
            GetValue blk txn row col = (Some v, None)"
      by blast
  qed
  have base_a: "\<not> deleted_at (vb_mvcc blk) row ?ts \<and>
      \<not> (\<exists>n \<in> set ?chain. \<exists>c v. visible_update n row ?ts c v) \<and>
      IsAppendable (vb_meta blk) \<and> vb_node blk = Some nd \<and>
      row_visible (vb_mvcc blk) nd ?ts row \<and> row < length (nd_data nd col) \<longrightarrow>
        GetValue blk txn row col = (Some (nd_data nd col ! row), None)"
  proof (intro impI, elim conjE)
    assume nd: "\<not> deleted_at (vb_mvcc blk) row ?ts"
      and nu: "\<not> (\<exists>n \<in> set ?chain. \<exists>c v. visible_update n row ?ts c v)"
      and ap: "IsAppendable (vb_meta blk)" and node: "vb_node blk = Some nd"
      and vis: "row_visible (vb_mvcc blk) nd ?ts row" and len: "row < length (nd_data nd col)"
    show "GetValue blk txn row col = (Some (nd_data nd col ! row), None)"
      using nd col ap GetValueLocked_none [OF nu] base_read_appendable [OF node vis len]
      by (simp add: GetValue_def IsDeletedLocked_deleted_at)
  qed
  have base_i: "\<not> deleted_at (vb_mvcc blk) row ?ts \<and>
      \<not> (\<exists>n \<in> set ?chain. \<exists>c v. visible_update n row ?ts c v) \<and>
      \<not> IsAppendable (vb_meta blk) \<and> row < length (fst (colFile blk col)) \<longrightarrow>
        GetValue blk txn row col = (Some (fst (colFile blk col) ! row), None)"
  proof (intro impI, elim conjE)
    assume nd: "\<not> deleted_at (vb_mvcc blk) row ?ts"
      and nu: "\<not> (\<exists>n \<in> set ?chain. \<exists>c v. visible_update n row ?ts c v)"
      and ap: "\<not> IsAppendable (vb_meta blk)" and len: "row < length (fst (colFile blk col))"
    show "GetValue blk txn row col = (Some (fst (colFile blk col) ! row), None)"
      using nd col ap len GetValueLocked_none [OF nu]
      by (simp add: GetValue_def IsDeletedLocked_deleted_at getVectorWrapper_col_def
          compute_GetValue_def)
  qed
  from del upd base_a base_i show ?thesis by blast
qed


lemma s3_facts:
  "vb_mvcc s3_blk = s3_mvcc" "vb_mvcc s3_sealed = s3_mvcc"
  "IsAppendable (vb_meta s3_blk)" "\<not> IsAppendable (vb_meta s3_sealed)"
  "columns s3_mvcc ! Suc 0 = [\<lparr>un_startTs = 160, un_commitTs = Some 180, un_vals = [0 \<mapsto> 11]\<rparr>]"
  "length (columns s3_mvcc) = 2"
  "vb_node s3_blk = Some \<lparr>nd_rows = 3,
      nd_data = (\<lambda>c. if c = 0 then [1, 2, 1] else if c = 1 then [10, 20, 99] else [])\<rparr>"
  "fst (colFile s3_sealed (Suc 0)) = [10, 20, 99]"
  by (simp_all add: s3_blk_def s3_sealed_def s3_mvcc_def s3_meta_def)

lemma s3_deleted_at: "deleted_at s3_mvcc row ts \<longleftrightarrow> row = 0 \<and> 220 \<le> ts"
  by (auto simp: deleted_at_def s3_mvcc_def)

lemma s3_visible_update:
  "visible_update \<lparr>un_startTs = 160, un_commitTs = Some 180, un_vals = [0 \<mapsto> 11]\<rparr> row ts c v
     \<longleftrightarrow> row = 0 \<and> c = 180 \<and> 180 \<le> ts \<and> v = (11 :: int)"
  by (auto simp: visible_update_def)

lemma s3_row_visible:
  "row_visible s3_mvcc \<lparr>nd_rows = 3, nd_data = d\<rparr> 250 (Suc 0)"
  "row_visible s3_mvcc \<lparr>nd_rows = 3, nd_data = d\<rparr> 150 (Suc 0)"
  by (simp_all add: row_visible_def s3_mvcc_def)

theorem GetValue_last_writer_wins_witness:
  "GetValue s3_blk \<lparr>GetStartTS = 250\<rparr> 0 1 = (None, Some ErrNotFound)
   \<and> GetValue s3_blk \<lparr>GetStartTS = 215\<rparr> 0 1 = (Some 11, None)
   \<and> GetValue s3_blk \<lparr>GetStartTS = 250\<rparr> 1 1 = (Some 20, None)
   \<and> GetValue s3_blk \<lparr>GetStartTS = 150\<rparr> 1 1 = (Some 20, None)
   \<and> GetValue s3_sealed \<lparr>GetStartTS = 250\<rparr> 2 1 = (Some 99, None)"
proof -
  have c: "1 < length (columns (vb_mvcc s3_blk))" "1 < length (columns (vb_mvcc s3_sealed))"
    by (simp_all add: s3_facts)
  note t = GetValue_last_writer_wins
  have "GetValue s3_blk \<lparr>GetStartTS = 250\<rparr> 0 1 = (None, Some ErrNotFound)"
    using t [OF c(1), of 0 "\<lparr>GetStartTS = 250\<rparr>"]
    by (simp add: s3_facts s3_deleted_at)
  moreover have "GetValue s3_blk \<lparr>GetStartTS = 215\<rparr> 0 1 = (Some 11, None)"
    using t [OF c(1), of 0 "\<lparr>GetStartTS = 215\<rparr>"]
    by (simp add: s3_facts s3_deleted_at s3_visible_update)
  moreover have "GetValue s3_blk \<lparr>GetStartTS = 250\<rparr> 1 1 = (Some 20, None)"
    using t [OF c(1), of 1 "\<lparr>GetStartTS = 250\<rparr>"
        "\<lparr>nd_rows = 3,
          nd_data = (\<lambda>c. if c = 0 then [1, 2, 1] else if c = 1 then [10, 20, 99] else [])\<rparr>"]
    by (simp add: s3_facts s3_deleted_at s3_visible_update s3_row_visible)
  moreover have "GetValue s3_blk \<lparr>GetStartTS = 150\<rparr> 1 1 = (Some 20, None)"
    using t [OF c(1), of 1 "\<lparr>GetStartTS = 150\<rparr>"
        "\<lparr>nd_rows = 3,
          nd_data = (\<lambda>c. if c = 0 then [1, 2, 1] else if c = 1 then [10, 20, 99] else [])\<rparr>"]
    by (simp add: s3_facts s3_deleted_at s3_visible_update s3_row_visible)
  moreover have "GetValue s3_sealed \<lparr>GetStartTS = 250\<rparr> 2 1 = (Some 99, None)"
    using t [OF c(2), of 2 "\<lparr>GetStartTS = 250\<rparr>"]
    by (simp add: s3_facts s3_deleted_at s3_visible_update)
  ultimately show ?thesis by simp
qed

text \<open>
  The claim as stated, for every transaction and row, fails on a row whose append
  commits after the transaction has started: row 1 was appended at 100, it is neither
  deleted nor updated at 50, and for a transaction that started at 50 \<open>getVectorCopy\<close>
  finds no visible row and returns a nil view, which \<open>GetValue\<close> dereferences.
\<close>

theorem GetValue_invisible_row_counterexample:
  "\<not> deleted_at (vb_mvcc s3_blk) 1 50
   \<and> \<not> (\<exists>n \<in> set (columns (vb_mvcc s3_blk) ! 1). \<exists>c v. visible_update n 1 50 c v)
   \<and> GetValue s3_blk \<lparr>GetStartTS = 50\<rparr> 1 1 = (None, Some GoPanic)"
proof -
  have "GetMaxVisibleRowLocked s3_mvcc 50 = (0, False, None)"
    by (simp add: GetMaxVisibleRowLocked_def s3_mvcc_def committed_at_def)
  then have "fst (getVectorCopy s3_blk 50 1) = None"
    by (simp add: getVectorCopy_def s3_facts GetMaxVisibleTS_def) (simp add: s3_mvcc_def)
  moreover have "GetValueLocked (columns s3_mvcc ! 1) 1 50 = (None, Some ErrNotFound)"
    by (simp add: s3_facts GetValueLocked_def)
  ultimately have "GetValue s3_blk \<lparr>GetStartTS = 50\<rparr> 1 1 = (None, Some GoPanic)"
    by (simp add: GetValue_def IsDeletedLocked_deleted_at s3_facts s3_deleted_at)
  then show ?thesis
    by (simp add: s3_facts s3_deleted_at s3_visible_update)
qed

subsection \<open>The two update paths\<close>

lemma DeleteNodeLocked_added: "DeleteNodeLocked (chain @ [n]) (length chain) = chain"
  by (simp add: DeleteNodeLocked_def)

lemma TryUpdateNodeLocked_rejects:
  assumes "m \<in> set chain" and "ww_conflict m row (un_startTs n)"
  shows "TryUpdateNodeLocked (chain @ [n]) row v (length chain) = (chain @ [n], Some TxnWWConflictErr)"
proof -
  from assms(1) obtain j where j: "j < length chain" "chain ! j = m"
    by (auto simp: in_set_conv_nth)
  then have "j \<in> set [0 ..< length (chain @ [n])]" "j \<noteq> length chain"
    "ww_conflict ((chain @ [n]) ! j) row (un_startTs ((chain @ [n]) ! length chain))"
    using assms(2) by (simp_all add: nth_append)
  then have "list_ex (\<lambda>j. j \<noteq> length chain \<and>
       ww_conflict ((chain @ [n]) ! j) row (un_startTs ((chain @ [n]) ! length chain)))
       [0 ..< length (chain @ [n])]"
    unfolding list_ex_iff by blast
  then show ?thesis by (simp add: TryUpdateNodeLocked_def)
qed

lemma TryUpdateNodeLocked_accepts:
  assumes "\<forall>m \<in> set chain. \<not> ww_conflict m row (un_startTs n)"
  shows "TryUpdateNodeLocked (chain @ [n]) row v (length chain) =
           (chain @ [n\<lparr>un_vals := (un_vals n)(row \<mapsto> v)\<rparr>], None)"
proof -
  have "\<not> list_ex (\<lambda>j. j \<noteq> length chain \<and>
       ww_conflict ((chain @ [n]) ! j) row (un_startTs ((chain @ [n]) ! length chain)))
       [0 ..< length (chain @ [n])]"
    unfolding list_ex_iff using assms by (auto simp: nth_append less_Suc_eq)
  then show ?thesis by (simp add: TryUpdateNodeLocked_def)
qed

lemma CheckNotUpdated_chain_conflict:
  assumes "col < length (columns h)" and "m \<in> set (columns h ! col)" and "ww_conflict m row ts"
  shows "CheckNotUpdated h row row ts = Some TxnWWConflictErr"
proof -
  have "columns h ! col \<in> set (columns h)" using assms(1) by simp
  with assms(2,3) have "list_ex (\<lambda>chain. list_ex (\<lambda>n. list_ex (\<lambda>row. ww_conflict n row ts)
                                            [row ..< Suc row]) chain) (columns h)"
    unfolding list_ex_iff by auto
  then show ?thesis by (simp add: CheckNotUpdated_def)
qed

lemma CheckNotUpdated_error: "CheckNotUpdated h s e ts = Some err \<Longrightarrow> err = TxnWWConflictErr"
  by (auto simp: CheckNotUpdated_def split: if_splits)

lemma set_chain_same:
  "col < length (columns (vb_mvcc blk)) \<Longrightarrow> set_chain blk col (columns (vb_mvcc blk) ! col) = blk"
  by (simp add: set_chain_def)

text \<open>The two paths when the delete check fails: both return its error.\<close>

lemma paths_deleted:
  assumes "CheckNotDeleted (vb_mvcc blk) row row (GetStartTS txn) = Some e"
  shows "updateWithCoarseLock blk txn row col v = (None, Some e, blk)"
    and "updateWithFineLock blk txn row col v = (None, Some e, blk)"
  using assms by (simp_all add: updateWithCoarseLock_def updateWithFineLock_def)

text \<open>The coarse path when the delete check passes and \<open>CheckNotUpdated\<close> does not.\<close>

lemma coarse_conflict:
  assumes "CheckNotDeleted (vb_mvcc blk) row row (GetStartTS txn) = None"
    and "CheckNotUpdated (vb_mvcc blk) row row (GetStartTS txn) \<noteq> None"
  shows "updateWithCoarseLock blk txn row col v = (None, Some TxnWWConflictErr, blk)"
  using assms CheckNotUpdated_error [of "vb_mvcc blk" row row "GetStartTS txn"]
  by (auto simp: updateWithCoarseLock_def Let_def)

text \<open>The fine path when the delete check passes.\<close>

lemma fine_chain_conflict:
  assumes c: "col < length (columns (vb_mvcc blk))"
    and m: "m \<in> set (columns (vb_mvcc blk) ! col)" "ww_conflict m row (GetStartTS txn)"
    and d: "CheckNotDeleted (vb_mvcc blk) row row (GetStartTS txn) = None"
  shows "updateWithFineLock blk txn row col v =
           (Some (length (columns (vb_mvcc blk) ! col)), Some TxnWWConflictErr, blk)"
proof -
  let ?n = "\<lparr>un_startTs = GetStartTS txn, un_commitTs = None, un_vals = Map.empty\<rparr> :: 'a ColumnNode"
  have "ww_conflict m row (un_startTs ?n)" using m(2) by simp
  from TryUpdateNodeLocked_rejects [OF m(1) this]
  show ?thesis
    using c d
    by (simp add: updateWithFineLock_def AddNodeLocked_def DeleteNodeLocked_added set_chain_same)
qed

lemma fine_installs:
  assumes c: "col < length (columns (vb_mvcc blk))"
    and m: "\<forall>m \<in> set (columns (vb_mvcc blk) ! col). \<not> ww_conflict m row (GetStartTS txn)"
    and d: "CheckNotDeleted (vb_mvcc blk) row row (GetStartTS txn) = None"
  shows "updateWithFineLock blk txn row col v =
           (Some (length (columns (vb_mvcc blk) ! col)), None,
            set_chain blk col
              (columns (vb_mvcc blk) ! col @
               [\<lparr>un_startTs = GetStartTS txn, un_commitTs = None, un_vals = [row \<mapsto> v]\<rparr>]))"
proof -
  let ?n = "\<lparr>un_startTs = GetStartTS txn, un_commitTs = None, un_vals = Map.empty\<rparr> :: 'a ColumnNode"
  have "\<forall>m \<in> set (columns (vb_mvcc blk) ! col). \<not> ww_conflict m row (un_startTs ?n)"
    using m by simp
  from TryUpdateNodeLocked_accepts [OF this]
  show ?thesis
    using c d by (simp add: updateWithFineLock_def AddNodeLocked_def Let_def)
qed

lemma fine_no_column:
  assumes "\<not> col < length (columns (vb_mvcc blk))"
    and "CheckNotDeleted (vb_mvcc blk) row row (GetStartTS txn) = None"
  shows "updateWithFineLock blk txn row col v = (None, Some GoPanic, blk)"
  using assms by (simp add: updateWithFineLock_def)

text \<open>
  C4 (as amended). The coarse-grained and the fine-grained update path return the same
  error and leave the block in the same state exactly on the inputs on which the
  delete check \<open>CheckNotDeleted\<close> fails (both paths return its error and leave the
  block as it is), or \<open>CheckNotUpdated\<close> finds no conflicting update of the row in any
  column (both paths do the same), or the chain of the target column itself holds a
  conflicting update of the row (both paths return the write-write conflict and leave
  the block as it is); when the update is installed they return the same node. On the
  remaining inputs, where the delete check passes and \<open>CheckNotUpdated\<close> reports a
  conflict that is not in the chain of the target column, the coarse path returns the
  write-write conflict and leaves the block as it is, and the fine path, which does not
  call \<open>CheckNotUpdated\<close>, installs the update in the chain of the column.
\<close>

theorem update_paths_agree:
  "(snd (updateWithCoarseLock blk txn row col v) = snd (updateWithFineLock blk txn row col v))
     = (CheckNotDeleted (vb_mvcc blk) row row (GetStartTS txn) \<noteq> None \<or>
        CheckNotUpdated (vb_mvcc blk) row row (GetStartTS txn) = None \<or>
        (col < length (columns (vb_mvcc blk)) \<and>
         (\<exists>n \<in> set (columns (vb_mvcc blk) ! col). ww_conflict n row (GetStartTS txn))))
   \<and> (snd (updateWithCoarseLock blk txn row col v) = snd (updateWithFineLock blk txn row col v) \<and>
      fst (snd (updateWithFineLock blk txn row col v)) = None \<longrightarrow>
        fst (updateWithCoarseLock blk txn row col v) = fst (updateWithFineLock blk txn row col v))
   \<and> (CheckNotDeleted (vb_mvcc blk) row row (GetStartTS txn) = Some e \<longrightarrow>
        updateWithCoarseLock blk txn row col v = (None, Some e, blk) \<and>
        updateWithFineLock blk txn row col v = (None, Some e, blk))
   \<and> (CheckNotDeleted (vb_mvcc blk) row row (GetStartTS txn) = None \<and>
      CheckNotUpdated (vb_mvcc blk) row row (GetStartTS txn) = None \<longrightarrow>
        updateWithCoarseLock blk txn row col v = updateWithFineLock blk txn row col v)
   \<and> (CheckNotDeleted (vb_mvcc blk) row row (GetStartTS txn) = None \<and>
      CheckNotUpdated (vb_mvcc blk) row row (GetStartTS txn) \<noteq> None \<longrightarrow>
        updateWithCoarseLock blk txn row col v = (None, Some TxnWWConflictErr, blk))
   \<and> (CheckNotDeleted (vb_mvcc blk) row row (GetStartTS txn) = None \<and>
      col < length (columns (vb_mvcc blk)) \<and>
      (\<exists>n \<in> set (columns (vb_mvcc blk) ! col). ww_conflict n row (GetStartTS txn)) \<longrightarrow>
        snd (updateWithFineLock blk txn row col v) = (Some TxnWWConflictErr, blk))
   \<and> (CheckNotDeleted (vb_mvcc blk) row row (GetStartTS txn) = None \<and>
      col < length (columns (vb_mvcc blk)) \<and>
      \<not> (\<exists>n \<in> set (columns (vb_mvcc blk) ! col). ww_conflict n row (GetStartTS txn)) \<longrightarrow>
        snd (updateWithFineLock blk txn row col v) =
          (None, set_chain blk col
             (columns (vb_mvcc blk) ! col @
              [\<lparr>un_startTs = GetStartTS txn, un_commitTs = None, un_vals = [row \<mapsto> v]\<rparr>])))"
proof -
  let ?ts = "GetStartTS txn"
  let ?C = "updateWithCoarseLock blk txn row col v"
  let ?F = "updateWithFineLock blk txn row col v"
  let ?D = "CheckNotDeleted (vb_mvcc blk) row row ?ts"
  let ?U = "CheckNotUpdated (vb_mvcc blk) row row ?ts"
  let ?T = "col < length (columns (vb_mvcc blk)) \<and>
            (\<exists>n \<in> set (columns (vb_mvcc blk) ! col). ww_conflict n row ?ts)"
  have deleted: "?C = (None, Some e, blk) \<and> ?F = (None, Some e, blk)" if "?D = Some e" for e
    using paths_deleted [OF that] by simp
  have pass: "?C = ?F" if "?D = None" "?U = None"
    using that by (simp add: updateWithCoarseLock_def updateWithFineLock_def Let_def)
  have coarse: "?C = (None, Some TxnWWConflictErr, blk)" if "?D = None" "?U \<noteq> None"
    using that by (rule coarse_conflict)
  have target: "snd ?F = (Some TxnWWConflictErr, blk)" if "?D = None" "?T"
    using that fine_chain_conflict [of col blk _ row txn v] by auto
  have installs: "snd ?F = (None, set_chain blk col
             (columns (vb_mvcc blk) ! col @
              [\<lparr>un_startTs = ?ts, un_commitTs = None, un_vals = [row \<mapsto> v]\<rparr>]))"
    if "?D = None" "col < length (columns (vb_mvcc blk))"
      "\<not> (\<exists>n \<in> set (columns (vb_mvcc blk) ! col). ww_conflict n row ?ts)"
    using that fine_installs [of col blk row txn v] by simp
  have panics: "snd ?F = (Some GoPanic, blk)"
    if "?D = None" "\<not> col < length (columns (vb_mvcc blk))"
    using fine_no_column [OF that(2,1)] by simp
  have target_upd: "?U \<noteq> None" if "?T"
    using that CheckNotUpdated_chain_conflict [of col "vb_mvcc blk" _ row ?ts] by auto
  have agree: "(snd ?C = snd ?F) = (?D \<noteq> None \<or> ?U = None \<or> ?T)"
  proof (cases ?D)
    case (Some e)
    then show ?thesis using deleted [OF Some] by simp
  next
    case None
    show ?thesis
    proof (cases "?U = None")
      case True
      then show ?thesis using pass [OF None True] by simp
    next
      case False
      note c = coarse [OF None False]
      show ?thesis
      proof (cases ?T)
        case True
        then show ?thesis using c target [OF None True] by simp
      next
        case nt: False
        show ?thesis
        proof (cases "col < length (columns (vb_mvcc blk))")
          case True
          then have "snd ?F \<noteq> snd ?C"
            using installs [OF None True] nt c by simp
          then show ?thesis using None False nt by auto
        next
          case False
          then have "snd ?F \<noteq> snd ?C"
            using panics [OF None False] c by simp
          then show ?thesis using None \<open>?U \<noteq> None\<close> nt by auto
        qed
      qed
    qed
  qed
  have node: "fst ?C = fst ?F" if "snd ?C = snd ?F" "fst (snd ?F) = None"
  proof (cases ?D)
    case (Some e)
    then show ?thesis using deleted [OF Some] by simp
  next
    case None
    show ?thesis
    proof (cases "?U = None")
      case True
      then show ?thesis using pass [OF None True] by simp
    next
      case False
      have "fst (snd ?C) = Some TxnWWConflictErr"
        using coarse [OF None False] by simp
      then have "fst (snd ?F) = Some TxnWWConflictErr"
        by (simp only: that(1))
      then show ?thesis using that(2) by simp
    qed
  qed
  show ?thesis
    using agree node deleted pass coarse target installs by blast
qed

lemma s2_facts:
  "columns (vb_mvcc s2_blk) =
     [[], [\<lparr>un_startTs = 160, un_commitTs = None, un_vals = [0 \<mapsto> 11]\<rparr>]]"
  "deletes (vb_mvcc s2_blk) = []"
  by (simp_all add: s2_blk_def)

lemma s2_checks:
  "CheckNotDeleted (vb_mvcc s2_blk) row row ts = None"
  "CheckNotUpdated (vb_mvcc s2_blk) 0 0 170 = Some TxnWWConflictErr"
  "CheckNotUpdated (vb_mvcc s2_blk) (Suc 0) (Suc 0) 170 = None"
  by (simp_all add: CheckNotDeleted_def CheckNotUpdated_def s2_facts ww_conflict_def)

lemma s2_fine_other_column:
  "updateWithFineLock s2_blk \<lparr>GetStartTS = 170\<rparr> 0 0 12 =
     (Some 0, None,
      set_chain s2_blk 0 [\<lparr>un_startTs = 170, un_commitTs = None, un_vals = [0 \<mapsto> 12]\<rparr>])"
  by (simp add: updateWithFineLock_def s2_checks s2_facts AddNodeLocked_def
      TryUpdateNodeLocked_def ww_conflict_def)

lemma s2_fine_free_row:
  "updateWithFineLock s2_blk \<lparr>GetStartTS = 170\<rparr> (Suc 0) (Suc 0) 21 =
     (Some (Suc 0), None,
      set_chain s2_blk (Suc 0)
        [\<lparr>un_startTs = 160, un_commitTs = None, un_vals = [0 \<mapsto> 11]\<rparr>,
         \<lparr>un_startTs = 170, un_commitTs = None, un_vals = [Suc 0 \<mapsto> 21]\<rparr>])"
  by (simp add: updateWithFineLock_def s2_checks s2_facts AddNodeLocked_def
      TryUpdateNodeLocked_def ww_conflict_def)

text \<open>
  On the block of scenario S3, row 0 is deleted at 220: an updater that starts at 230
  finds it deleted, and for an updater that started at 170 the delete is a conflicting
  write; the update of \<open>v\<close> of row 0, committed at 180, conflicts with that updater too.
\<close>

lemma s3_delete_checks:
  "CheckNotDeleted (vb_mvcc s3_blk) 0 0 230 = Some ErrNotFound"
  "CheckNotDeleted (vb_mvcc s3_blk) 0 0 170 = Some TxnWWConflictErr"
  "CheckNotUpdated (vb_mvcc s3_blk) 0 0 170 = Some TxnWWConflictErr"
  by (simp_all add: CheckNotDeleted_def CheckNotUpdated_def s3_blk_def s3_mvcc_def
      committed_at_def ww_conflict_def)

theorem update_paths_agree_witness:
  "updateWithCoarseLock s2_blk \<lparr>GetStartTS = 170\<rparr> 1 1 21 =
     updateWithFineLock s2_blk \<lparr>GetStartTS = 170\<rparr> 1 1 21
   \<and> fst (snd (updateWithFineLock s2_blk \<lparr>GetStartTS = 170\<rparr> 1 1 21)) = None
   \<and> snd (updateWithCoarseLock s2_blk \<lparr>GetStartTS = 170\<rparr> 0 1 12) =
     snd (updateWithFineLock s2_blk \<lparr>GetStartTS = 170\<rparr> 0 1 12)
   \<and> updateWithCoarseLock s2_blk \<lparr>GetStartTS = 170\<rparr> 0 1 12 = (None, Some TxnWWConflictErr, s2_blk)
   \<and> updateWithCoarseLock s3_blk \<lparr>GetStartTS = 230\<rparr> 0 0 12 = (None, Some ErrNotFound, s3_blk)
   \<and> updateWithFineLock s3_blk \<lparr>GetStartTS = 230\<rparr> 0 0 12 = (None, Some ErrNotFound, s3_blk)
   \<and> updateWithCoarseLock s3_blk \<lparr>GetStartTS = 170\<rparr> 0 0 12 = (None, Some TxnWWConflictErr, s3_blk)
   \<and> updateWithFineLock s3_blk \<lparr>GetStartTS = 170\<rparr> 0 0 12 = (None, Some TxnWWConflictErr, s3_blk)"
proof -
  have c: "1 < length (columns (vb_mvcc s2_blk))"
    "\<exists>n \<in> set (columns (vb_mvcc s2_blk) ! 1).
        ww_conflict n 0 (GetStartTS \<lparr>GetStartTS = 170\<rparr>)"
    by (simp_all add: s2_facts ww_conflict_def)
  have ok: "fst (snd (updateWithFineLock s2_blk \<lparr>GetStartTS = 170\<rparr> 1 1 21)) = None"
    by (simp add: s2_fine_free_row)
  have free: "CheckNotDeleted (vb_mvcc s2_blk) 1 1 (GetStartTS \<lparr>GetStartTS = 170\<rparr>) = None"
    "CheckNotUpdated (vb_mvcc s2_blk) 1 1 (GetStartTS \<lparr>GetStartTS = 170\<rparr>) = None"
    by (simp_all add: s2_checks)
  have taken: "CheckNotDeleted (vb_mvcc s2_blk) 0 0 (GetStartTS \<lparr>GetStartTS = 170\<rparr>) = None"
    "CheckNotUpdated (vb_mvcc s2_blk) 0 0 (GetStartTS \<lparr>GetStartTS = 170\<rparr>) \<noteq> None"
    by (simp_all add: s2_checks)
  have gone: "CheckNotDeleted (vb_mvcc s3_blk) 0 0 (GetStartTS \<lparr>GetStartTS = 230\<rparr>) = Some ErrNotFound"
    "CheckNotDeleted (vb_mvcc s3_blk) 0 0 (GetStartTS \<lparr>GetStartTS = 170\<rparr>) = Some TxnWWConflictErr"
    by (simp_all add: s3_delete_checks)
  from update_paths_agree [of s2_blk "\<lparr>GetStartTS = 170\<rparr>" 1 1 21] free
  have 1: "updateWithCoarseLock s2_blk \<lparr>GetStartTS = 170\<rparr> 1 1 21 =
     updateWithFineLock s2_blk \<lparr>GetStartTS = 170\<rparr> 1 1 21"
    by blast
  from update_paths_agree [of s2_blk "\<lparr>GetStartTS = 170\<rparr>" 0 1 12] c taken
  have 2: "snd (updateWithCoarseLock s2_blk \<lparr>GetStartTS = 170\<rparr> 0 1 12) =
     snd (updateWithFineLock s2_blk \<lparr>GetStartTS = 170\<rparr> 0 1 12)"
    "updateWithCoarseLock s2_blk \<lparr>GetStartTS = 170\<rparr> 0 1 12 = (None, Some TxnWWConflictErr, s2_blk)"
    by blast+
  from update_paths_agree [of s3_blk "\<lparr>GetStartTS = 230\<rparr>" 0 0 12 ErrNotFound] gone(1)
  have 3: "updateWithCoarseLock s3_blk \<lparr>GetStartTS = 230\<rparr> 0 0 12 = (None, Some ErrNotFound, s3_blk)"
    "updateWithFineLock s3_blk \<lparr>GetStartTS = 230\<rparr> 0 0 12 = (None, Some ErrNotFound, s3_blk)"
    by blast+
  from update_paths_agree [of s3_blk "\<lparr>GetStartTS = 170\<rparr>" 0 0 12 TxnWWConflictErr] gone(2)
  have 4: "updateWithCoarseLock s3_blk \<lparr>GetStartTS = 170\<rparr> 0 0 12 = (None, Some TxnWWConflictErr, s3_blk)"
    "updateWithFineLock s3_blk \<lparr>GetStartTS = 170\<rparr> 0 0 12 = (None, Some TxnWWConflictErr, s3_blk)"
    by blast+
  from 1 ok 2 3 4 show ?thesis by blast
qed

text \<open>
  The claim as stated fails when only another column holds a conflicting update of the
  row: with an update of \<open>v\<close> of row 0 in flight, an update of \<open>pk\<close> of row 0 by a
  transaction that started at 170 is refused with a write-write conflict on the coarse
  path, which leaves the chain of \<open>pk\<close> empty, and is installed on the fine path.
\<close>

theorem update_paths_differ_counterexample:
  "updateWithCoarseLock s2_blk \<lparr>GetStartTS = 170\<rparr> 0 0 12 = (None, Some TxnWWConflictErr, s2_blk)
   \<and> fst (snd (updateWithFineLock s2_blk \<lparr>GetStartTS = 170\<rparr> 0 0 12)) = None
   \<and> columns (vb_mvcc s2_blk) ! 0 = []
   \<and> map un_startTs
        (columns (vb_mvcc (snd (snd (updateWithFineLock s2_blk \<lparr>GetStartTS = 170\<rparr> 0 0 12)))) ! 0)
       = [170]"
  by (simp add: s2_fine_other_column updateWithCoarseLock_def s2_checks)
     (simp add: set_chain_def s2_facts)

subsection \<open>Replay\<close>

lemma upsert_keys_other: "k \<notin> set ks \<Longrightarrow> upsert_keys act ks off k = act k"
  by (induction ks arbitrary: act off) auto

lemma upsert_keys_defined: "k \<in> set ks \<Longrightarrow> \<exists>p. upsert_keys act ks off k = Some p"
proof (induction ks arbitrary: act off)
  case Nil
  then show ?case by simp
next
  case (Cons x xs)
  show ?case
  proof (cases "k \<in> set xs")
    case True
    from Cons.IH [OF True] show ?thesis by simp
  next
    case False
    with Cons.prems have "k = x" by simp
    with False show ?thesis by (simp add: upsert_keys_other)
  qed
qed

lemma upsert_keys_last:
  "upsert_keys act ks off k = Some p \<Longrightarrow> k \<in> set ks \<Longrightarrow>
     off \<le> p \<and> p - off < length ks \<and> ks ! (p - off) = k \<and>
     (\<forall>j. p - off < j \<and> j < length ks \<longrightarrow> ks ! j \<noteq> k)"
proof (induction ks arbitrary: act off)
  case Nil
  then show ?case by simp
next
  case (Cons x xs)
  from Cons.prems(1) have u: "upsert_keys (act(x \<mapsto> off)) xs (Suc off) k = Some p" by simp
  show ?case
  proof (cases "k \<in> set xs")
    case True
    from Cons.IH [OF u True]
    have ih: "Suc off \<le> p" "p - Suc off < length xs" "xs ! (p - Suc off) = k"
      "\<forall>j. p - Suc off < j \<and> j < length xs \<longrightarrow> xs ! j \<noteq> k"
      by auto
    from ih(1) have s: "p - off = Suc (p - Suc off)" by simp
    have "\<forall>j. p - off < j \<and> j < length (x # xs) \<longrightarrow> (x # xs) ! j \<noteq> k"
    proof (intro allI impI)
      fix j assume j: "p - off < j \<and> j < length (x # xs)"
      then obtain j' where j': "j = Suc j'" by (cases j) auto
      with j s have "p - Suc off < j' \<and> j' < length xs" by simp
      with ih(4) have "xs ! j' \<noteq> k" by blast
      with j' show "(x # xs) ! j \<noteq> k" by simp
    qed
    with ih s show ?thesis by simp
  next
    case False
    with Cons.prems(2) have kx: "k = x" by simp
    from u False kx have p: "p = off" by (simp add: upsert_keys_other)
    have "\<forall>j. 0 < j \<and> j < length (x # xs) \<longrightarrow> (x # xs) ! j \<noteq> k"
    proof (intro allI impI)
      fix j assume j: "0 < j \<and> j < length (x # xs)"
      then obtain j' where j': "j = Suc j'" "j' < length xs" by (cases j) auto
      then have "xs ! j' \<in> set xs" by simp
      with False have "xs ! j' \<noteq> k" by auto
      with j' show "(x # xs) ! j \<noteq> k" by simp
    qed
    with p kx show ?thesis by simp
  qed
qed

text \<open>From an empty active map: the active row of a key is its last row.\<close>

lemma upsert_keys_empty:
  "(upsert_keys Map.empty ks 0 k = Some p) \<longleftrightarrow>
     (p < length ks \<and> ks ! p = k \<and> (\<forall>j. p < j \<and> j < length ks \<longrightarrow> ks ! j \<noteq> k))"
proof
  assume u: "upsert_keys Map.empty ks 0 k = Some p"
  then have "k \<in> set ks"
    using upsert_keys_other [of k ks Map.empty 0] by (cases "k \<in> set ks") auto
  from upsert_keys_last [OF u this] show
    "p < length ks \<and> ks ! p = k \<and> (\<forall>j. p < j \<and> j < length ks \<longrightarrow> ks ! j \<noteq> k)"
    by simp
next
  assume a: "p < length ks \<and> ks ! p = k \<and> (\<forall>j. p < j \<and> j < length ks \<longrightarrow> ks ! j \<noteq> k)"
  then have in_ks: "k \<in> set ks" by auto
  from upsert_keys_defined [OF in_ks]
  obtain q where q: "upsert_keys Map.empty ks 0 k = Some q" by blast
  from upsert_keys_last [OF q in_ks]
  have l: "q < length ks" "ks ! q = k" "\<forall>j. q < j \<and> j < length ks \<longrightarrow> ks ! j \<noteq> k"
    by auto
  have "\<not> q < p" using l(3) a by blast
  moreover have "\<not> p < q" using l(1,2) a by blast
  ultimately have "q = p" by simp
  with q show "upsert_keys Map.empty ks 0 k = Some p" by simp
qed

lemma apply_delete_loop_active:
  assumes "\<forall>k p. act k = Some p \<longrightarrow> keyOf p = Some k"
    and "\<forall>r \<in> set gen. keyOf r \<noteq> None"
  shows "\<exists>act' tomb'.
           apply_delete_loop keyOf (MutableIndex act tomb) ts gen = (None, MutableIndex act' tomb') \<and>
           (\<forall>k p. act' k = Some p \<longleftrightarrow> act k = Some p \<and> p \<notin> set gen)"
  using assms
proof (induction gen arbitrary: act tomb)
  case Nil
  then show ?case by simp
next
  case (Cons r gen)
  from Cons.prems(2) obtain v where v: "keyOf r = Some v" by auto
  have rest: "\<forall>r \<in> set gen. keyOf r \<noteq> None" using Cons.prems(2) by simp
  have nor: "\<And>k. k \<noteq> v \<Longrightarrow> act k \<noteq> Some r"
    using Cons.prems(1) v by fastforce
  show ?case
  proof (cases "act v = Some r \<or> act v = None")
    case True
    let ?act = "act(v := None)"
    have c: "\<forall>k p. ?act k = Some p \<longrightarrow> keyOf p = Some k"
      using Cons.prems(1) by auto
    from Cons.IH [OF c rest, of "tomb(v \<mapsto> ts)"]
    obtain act' tomb' where
      l: "apply_delete_loop keyOf (MutableIndex ?act (tomb(v \<mapsto> ts))) ts gen =
            (None, MutableIndex act' tomb')"
      and a: "\<forall>k p. act' k = Some p \<longleftrightarrow> ?act k = Some p \<and> p \<notin> set gen"
      by blast
    have "apply_delete_loop keyOf (MutableIndex act tomb) ts (r # gen) =
            (None, MutableIndex act' tomb')"
      using True v l by (auto split: option.splits)
    moreover have "\<forall>k p. act' k = Some p \<longleftrightarrow> act k = Some p \<and> p \<notin> set (r # gen)"
    proof (intro allI)
      fix k p
      show "act' k = Some p \<longleftrightarrow> act k = Some p \<and> p \<notin> set (r # gen)"
      proof (cases "k = v")
        case True
        with a have "act' k = None" by (cases "act' k") auto
        moreover have "\<not> (act k = Some p \<and> p \<notin> set (r # gen))"
          using \<open>act v = Some r \<or> act v = None\<close> True by auto
        ultimately show ?thesis by simp
      next
        case False
        with a have "act' k = Some p \<longleftrightarrow> act k = Some p \<and> p \<notin> set gen" by simp
        with nor [OF False] show ?thesis by auto
      qed
    qed
    ultimately show ?thesis by blast
  next
    case False
    then obtain q where q: "act v = Some q" "q \<noteq> r" by auto
    from Cons.IH [OF Cons.prems(1) rest, of tomb]
    obtain act' tomb' where
      l: "apply_delete_loop keyOf (MutableIndex act tomb) ts gen = (None, MutableIndex act' tomb')"
      and a: "\<forall>k p. act' k = Some p \<longleftrightarrow> act k = Some p \<and> p \<notin> set gen"
      by blast
    have "apply_delete_loop keyOf (MutableIndex act tomb) ts (r # gen) =
            (None, MutableIndex act' tomb')"
      using q v l by simp
    moreover have "\<forall>k p. act' k = Some p \<longleftrightarrow> act k = Some p \<and> p \<notin> set (r # gen)"
    proof (intro allI)
      fix k p
      have "act k \<noteq> Some r" using nor [of k] q by (cases "k = v") auto
      with a show "act' k = Some p \<longleftrightarrow> act k = Some p \<and> p \<notin> set (r # gen)" by auto
    qed
    ultimately show ?thesis by blast
  qed
qed


lemma copy_sort_columns_eq:
  "copy_sort_columns nd idxs = (map (\<lambda>i. take (nd_rows nd) (nd_data nd i)) idxs, None)"
  by (induction idxs) (simp_all add: GetVectorCopy_def)

lemma foldr_min_const: "\<forall>v \<in> set vs. length v = n \<Longrightarrow> foldr min (map length vs) n = n"
  by (induction vs) simp_all

lemma EncodeCompoundColumn_rows:
  assumes "idxs \<noteq> []" and "\<forall>i \<in> set idxs. length (nd_data nd i) = nd_rows nd"
  shows "EncodeCompoundColumn (map (\<lambda>i. take (nd_rows nd) (nd_data nd i)) idxs) =
           map (\<lambda>r. map (\<lambda>i. nd_data nd i ! r) idxs) [0 ..< nd_rows nd]"
proof -
  let ?vs = "map (\<lambda>i. take (nd_rows nd) (nd_data nd i)) idxs"
  from assms(1) obtain i0 rest where i: "idxs = i0 # rest" by (cases idxs) auto
  have len: "\<forall>v \<in> set ?vs. length v = nd_rows nd" using assms(2) by auto
  then have l0: "length (take (nd_rows nd) (nd_data nd i0)) = nd_rows nd" using i by simp
  have "foldr min (map length ?vs) (nd_rows nd) = nd_rows nd"
    by (rule foldr_min_const [OF len])
  then have "EncodeCompoundColumn ?vs =
      map (\<lambda>r. map (\<lambda>vec. vec ! r) ?vs) [0 ..< nd_rows nd]"
    using i l0 unfolding EncodeCompoundColumn_def by (simp del: length_take)
  also have "\<dots> = map (\<lambda>r. map (\<lambda>i. nd_data nd i ! r) idxs) [0 ..< nd_rows nd]"
    by (simp add: comp_def)
  finally show ?thesis .
qed

lemma single_keys_rows:
  assumes "length (nd_data nd i) = nd_rows nd"
  shows "map (\<lambda>x. [x]) (take (nd_rows nd) (nd_data nd i)) =
           map (\<lambda>r. map (\<lambda>i. nd_data nd i ! r) [i]) [0 ..< nd_rows nd]"
proof -
  have "map (\<lambda>x. [x]) (nd_data nd i) =
          map (\<lambda>r. [nd_data nd i ! r]) [0 ..< length (nd_data nd i)]"
    by (rule nth_equalityI) simp_all
  with assms show ?thesis by simp
qed

lemma IsSinglePK_iff: "SortKey s = Some idxs \<Longrightarrow> IsSinglePK s \<longleftrightarrow> (\<exists>i. idxs = [i])"
  by (auto simp: IsSinglePK_def split: list.splits)

lemma ReplayIndex_appendable:
  assumes ap: "IsAppendable (vb_meta blk)"
    and sk: "SortKey (GetSchema (vb_meta blk)) = Some idxs" "idxs \<noteq> []"
    and nd: "vb_node blk = Some nd"
    and len: "\<forall>i \<in> set idxs. length (nd_data nd i) = nd_rows nd"
    and idx: "rb_index blk = Some (MutableIndex act tomb)"
  shows "ReplayIndex blk =
           (None, blk\<lparr>rb_index := Some (MutableIndex
              (upsert_keys act (map (\<lambda>r. map (\<lambda>i. nd_data nd i ! r) idxs) [0 ..< nd_rows nd]) 0)
              tomb)\<rparr>)"
proof (cases "IsSinglePK (GetSchema (vb_meta blk))")
  case True
  with sk obtain i where i: "idxs = [i]" by (auto simp: IsSinglePK_iff)
  then have g: "GetSingleSortKeyIdx (GetSchema (vb_meta blk)) = i"
    using sk by (simp add: GetSingleSortKeyIdx_def)
  from len i have "length (nd_data nd i) = nd_rows nd" by simp
  from single_keys_rows [OF this] True ap sk nd idx g i show ?thesis
    by (simp add: ReplayIndex_def HasPK_def GetVectorCopy_def Let_def del: upt_Suc)
next
  case False
  with ap sk nd idx EncodeCompoundColumn_rows [OF sk(2) len] show ?thesis
    by (simp add: ReplayIndex_def HasPK_def copy_sort_columns_eq Let_def del: upt_Suc)
qed


lemma replay_updates_columns:
  assumes "\<forall>(c, m) \<in> set ups. c < length (columns (vb_mvcc blk))"
  shows "\<exists>cols. replay_updates blk ups =
                  (None, blk\<lparr>vb_mvcc := (vb_mvcc blk)\<lparr>columns := cols\<rparr>\<rparr>) \<and>
                length cols = length (columns (vb_mvcc blk))"
  using assms
proof (induction ups arbitrary: blk)
  case Nil
  have "replay_updates blk [] =
          (None, blk\<lparr>vb_mvcc := (vb_mvcc blk)\<lparr>columns := columns (vb_mvcc blk)\<rparr>\<rparr>)"
    by simp
  then show ?case by blast
next
  case (Cons u ups)
  obtain c m where u: "u = (c, m)" by (cases u)
  with Cons.prems have c: "c < length (columns (vb_mvcc blk))" by simp
  let ?n = "(NewCommittedColumnNode (rb_ckpTs blk) (rb_ckpTs blk))\<lparr>un_vals := m\<rparr>"
  let ?b = "set_chain blk c (OnReplayUpdateNode (columns (vb_mvcc blk) ! c) ?n)"
  have o: "OnReplayUpdate blk c ?n = (None, ?b)" using c by (simp add: OnReplayUpdate_def)
  have l: "length (columns (vb_mvcc ?b)) = length (columns (vb_mvcc blk))"
    by (simp add: set_chain_def)
  with Cons.prems have "\<forall>(c, m) \<in> set ups. c < length (columns (vb_mvcc ?b))" by simp
  from Cons.IH [OF this] obtain cols where
    r: "replay_updates ?b ups = (None, ?b\<lparr>vb_mvcc := (vb_mvcc ?b)\<lparr>columns := cols\<rparr>\<rparr>)"
    and lc: "length cols = length (columns (vb_mvcc ?b))"
    by blast
  have "?b\<lparr>vb_mvcc := (vb_mvcc ?b)\<lparr>columns := cols\<rparr>\<rparr> =
          blk\<lparr>vb_mvcc := (vb_mvcc blk)\<lparr>columns := cols\<rparr>\<rparr>"
    by (simp add: set_chain_def)
  with r o u have "replay_updates blk (u # ups) =
          (None, blk\<lparr>vb_mvcc := (vb_mvcc blk)\<lparr>columns := cols\<rparr>\<rparr>)"
    by simp
  moreover have "length cols = length (columns (vb_mvcc blk))" using lc l by simp
  ultimately show ?case by blast
qed

lemma compound_key_single:
  "SortKey s = Some [i] \<Longrightarrow> single_key nd s = compound_key nd [i]"
  by (rule ext) (simp add: single_key_def compound_key_def GetSingleSortKeyIdx_def)

lemma ABlkApplyDelete_index:
  assumes sk: "SortKey (GetSchema (vb_meta blk)) = Some idxs"
    and nd: "vb_node blk = Some nd"
    and idx: "rb_index blk = Some (MutableIndex act tomb)"
    and cons: "\<forall>k p. act k = Some p \<longrightarrow> compound_key nd idxs p = Some k"
    and rng: "\<forall>r \<in> set gen. compound_key nd idxs r \<noteq> None"
  shows "\<exists>act' tomb'.
           ABlkApplyDelete blk deleted gen ts =
             (None, blk\<lparr>rb_index := Some (MutableIndex act' tomb'),
                        rb_removedRows := rb_removedRows blk + deleted\<rparr>) \<and>
           (\<forall>k p. act' k = Some p \<longleftrightarrow> act k = Some p \<and> p \<notin> set gen)"
proof -
  have k: "(if IsSinglePK (GetSchema (vb_meta blk)) then single_key nd (GetSchema (vb_meta blk))
            else compound_key nd idxs) = compound_key nd idxs"
    using sk compound_key_single [of "GetSchema (vb_meta blk)" _ nd]
    by (auto simp: IsSinglePK_iff)
  from apply_delete_loop_active [OF cons rng, of tomb ts]
  obtain act' tomb' where
    l: "apply_delete_loop (compound_key nd idxs) (MutableIndex act tomb) ts gen =
          (None, MutableIndex act' tomb')"
    and a: "\<forall>k p. act' k = Some p \<longleftrightarrow> act k = Some p \<and> p \<notin> set gen"
    by blast
  have "ABlkApplyDelete blk deleted gen ts =
             (None, blk\<lparr>rb_index := Some (MutableIndex act' tomb'),
                        rb_removedRows := rb_removedRows blk + deleted\<rparr>)"
    using sk nd idx l by (simp add: ABlkApplyDelete_def HasPK_def k Let_def)
  with a show ?thesis by blast
qed

lemma ReplayDelta_appendable:
  assumes ap: "IsAppendable (vb_meta blk)"
    and sk: "SortKey (GetSchema (vb_meta blk)) = Some idxs"
    and nd: "vb_node blk = Some nd"
    and idx: "rb_index blk = Some (MutableIndex act tomb)"
    and ups: "\<forall>ups. LoadUpdates (rb_file blk) = Some ups \<longrightarrow>
                (\<forall>(c, m) \<in> set ups. c < length (columns (vb_mvcc blk)))"
    and ld: "LoadDeletes (rb_file blk) = (dmask, None)"
    and cons: "\<forall>k p. act k = Some p \<longrightarrow> compound_key nd idxs p = Some k"
    and rng: "\<forall>r \<in> set (case dmask of None \<Rightarrow> [] | Some d \<Rightarrow> d). compound_key nd idxs r \<noteq> None"
  shows "\<exists>blk' act' tomb'.
           ReplayDelta blk = (None, blk') \<and>
           vb_meta blk' = vb_meta blk \<and> vb_node blk' = vb_node blk \<and>
           maxVisible (vb_mvcc blk') = maxVisible (vb_mvcc blk) \<and>
           rb_ckpTs blk' = rb_ckpTs blk \<and>
           rb_index blk' = Some (MutableIndex act' tomb') \<and>
           (\<forall>k p. act' k = Some p \<longleftrightarrow>
                   act k = Some p \<and> p \<notin> set (case dmask of None \<Rightarrow> [] | Some d \<Rightarrow> d)) \<and>
           (\<forall>d. dmask = Some d \<longrightarrow>
                \<lparr>dn_startTs = rb_ckpTs blk, dn_commitTs = Some (rb_ckpTs blk), dn_rows = d\<rparr>
                  \<in> set (deletes (vb_mvcc blk')))"
proof -
  let ?a = "blk\<lparr>vb_mvcc := OnReplayAppendNode (vb_mvcc blk)
                               (NewCommittedAppendNode (rb_ckpTs blk) (nd_rows nd))\<rparr>"
  have "\<exists>cols. (case LoadUpdates (rb_file ?a) of None \<Rightarrow> (None, ?a)
                 | Some ups \<Rightarrow> replay_updates ?a ups) =
                (None, ?a\<lparr>vb_mvcc := (vb_mvcc ?a)\<lparr>columns := cols\<rparr>\<rparr>)"
  proof (cases "LoadUpdates (rb_file blk)")
    case None
    have "(case LoadUpdates (rb_file ?a) of None \<Rightarrow> (None, ?a)
                 | Some ups \<Rightarrow> replay_updates ?a ups) =
                (None, ?a\<lparr>vb_mvcc := (vb_mvcc ?a)\<lparr>columns := columns (vb_mvcc ?a)\<rparr>\<rparr>)"
      using None by simp
    then show ?thesis by (rule exI)
  next
    case (Some u)
    with ups have "\<forall>(c, m) \<in> set u. c < length (columns (vb_mvcc ?a))"
      by (simp add: OnReplayAppendNode_def)
    from replay_updates_columns [OF this] Some show ?thesis by auto
  qed
  then obtain cols where
    u: "(case LoadUpdates (rb_file ?a) of None \<Rightarrow> (None, ?a)
         | Some ups \<Rightarrow> replay_updates ?a ups) =
        (None, ?a\<lparr>vb_mvcc := (vb_mvcc ?a)\<lparr>columns := cols\<rparr>\<rparr>)"
    by blast
  let ?u = "?a\<lparr>vb_mvcc := (vb_mvcc ?a)\<lparr>columns := cols\<rparr>\<rparr>"
  have step: "ReplayDelta blk =
     (case dmask of None \<Rightarrow> (None, ?u)
      | Some rows \<Rightarrow> OnReplayDelete ?u ((NewMergedNode (rb_ckpTs ?u))\<lparr>dn_rows := rows\<rparr>))"
    using ap nd u ld by (simp add: ReplayDelta_def Let_def split: option.splits)
  show ?thesis
  proof (cases dmask)
    case None
    with step have "ReplayDelta blk = (None, ?u)" by simp
    moreover have "rb_index ?u = Some (MutableIndex act tomb)" using idx by simp
    moreover have "maxVisible (vb_mvcc ?u) = maxVisible (vb_mvcc blk)"
      by (simp add: OnReplayAppendNode_def)
    ultimately show ?thesis using None by auto
  next
    case (Some d)
    let ?n = "(NewMergedNode (rb_ckpTs blk))\<lparr>dn_rows := d\<rparr>"
    let ?d = "?u\<lparr>vb_mvcc := OnReplayDeleteNode (vb_mvcc ?u) ?n\<rparr>"
    have f: "SortKey (GetSchema (vb_meta ?d)) = Some idxs" "vb_node ?d = Some nd"
      "rb_index ?d = Some (MutableIndex act tomb)"
      using sk nd idx by simp_all
    from rng Some have r: "\<forall>r \<in> set d. compound_key nd idxs r \<noteq> None" by simp
    from ABlkApplyDelete_index [OF f cons r, of "length d" "rb_ckpTs blk"]
    obtain act' tomb' where
      ab: "ABlkApplyDelete ?d (length d) d (rb_ckpTs blk) =
             (None, ?d\<lparr>rb_index := Some (MutableIndex act' tomb'),
                       rb_removedRows := rb_removedRows ?d + length d\<rparr>)"
      and a: "\<forall>k p. act' k = Some p \<longleftrightarrow> act k = Some p \<and> p \<notin> set d"
      by blast
    let ?r = "?d\<lparr>rb_index := Some (MutableIndex act' tomb'),
                  rb_removedRows := rb_removedRows ?d + length d\<rparr>"
    have rd: "ReplayDelta blk = (None, ?r)"
      using step Some ab ap
      by (simp add: OnReplayDelete_def OnApply_def NewMergedNode_def)
    have mem: "\<forall>d'. dmask = Some d' \<longrightarrow>
                \<lparr>dn_startTs = rb_ckpTs blk, dn_commitTs = Some (rb_ckpTs blk), dn_rows = d'\<rparr>
                  \<in> set (deletes (vb_mvcc ?r))"
      using Some by (simp add: OnReplayDeleteNode_def NewMergedNode_def)
    have mv: "maxVisible (vb_mvcc ?r) = maxVisible (vb_mvcc blk)"
      by (simp add: OnReplayDeleteNode_def OnReplayAppendNode_def)
    have ix: "rb_index ?r = Some (MutableIndex act' tomb')" by simp
    have same: "vb_meta ?r = vb_meta blk" "vb_node ?r = vb_node blk" "rb_ckpTs ?r = rb_ckpTs blk"
      by simp_all
    have a': "\<forall>k p. act' k = Some p \<longleftrightarrow>
                   act k = Some p \<and> p \<notin> set (case dmask of None \<Rightarrow> [] | Some d \<Rightarrow> d)"
      using a Some by simp
    from rd same mv ix a' mem show ?thesis by blast
  qed
qed


lemma compound_key_disk:
  assumes "\<forall>i \<in> set idxs. length (fileColumn file i) = ReadRows file" and "p < ReadRows file"
  shows "compound_key (newNode file) idxs p = Some (disk_key file idxs p)"
  using assms by (simp add: compound_key_def newNode_def disk_key_def list_all_iff comp_def)

lemma GetValue_deleted:
  "deleted_at (vb_mvcc blk) row (GetStartTS txn) \<Longrightarrow>
     GetValue blk txn row col = (None, Some ErrNotFound)"
  by (simp add: GetValue_def IsDeletedLocked_deleted_at)

lemma newBlock_replay_pk:
  assumes ap: "IsAppendable entry"
    and sk: "SortKey (GetSchema entry) = Some idxs" "idxs \<noteq> []"
    and ts: "0 < ReadTS file"
    and len: "\<forall>i \<in> set idxs. length (fileColumn file i) = ReadRows file"
    and ups: "\<forall>ups. LoadUpdates file = Some ups \<longrightarrow>
                (\<forall>(c, m) \<in> set ups. c < length (ColDefs (GetSchema entry)))"
    and ld: "LoadDeletes file = (dmask, None)"
    and dels: "dels = (case dmask of None \<Rightarrow> [] | Some d \<Rightarrow> d)"
    and rng: "\<forall>r \<in> set dels. r < ReadRows file"
    and uniq: "\<forall>i j. i < j \<and> j < ReadRows file \<and>
                 disk_key file idxs i = disk_key file idxs j \<longrightarrow> i \<in> set dels"
  shows "\<exists>blk act tomb.
           newBlock entry file = Inr blk \<and>
           maxVisible (vb_mvcc blk) = ReadTS file \<and>
           rb_ckpTs blk = ReadTS file \<and>
           rb_index blk = Some (MutableIndex act tomb) \<and>
           dom act = {disk_key file idxs r | r. r < ReadRows file \<and> r \<notin> set dels} \<and>
           (\<forall>r. r < ReadRows file \<and> r \<notin> set dels \<longrightarrow> act (disk_key file idxs r) = Some r) \<and>
           (\<forall>r \<in> set dels. \<forall>txn c. ReadTS file \<le> GetStartTS txn \<longrightarrow>
               GetValue blk txn r c = (None, Some ErrNotFound))"
proof -
  let ?n = "ReadRows file"
  let ?key = "disk_key file idxs"
  let ?ks = "map ?key [0 ..< ?n]"
  let ?A0 = "upsert_keys Map.empty ?ks 0"
  let ?b0 = "\<lparr>vb_meta = entry, vb_node = Some (newNode file),
              colFile = (\<lambda>c. (fileColumn file c, None)),
              vb_mvcc = SetMaxVisible (NewMVCCHandle entry) (ReadTS file),
              rb_file = file, rb_index = Some (NewMutableIndex :: 'a list Index),
              rb_ckpTs = ReadTS file, rb_removedRows = 0\<rparr>"
  let ?b1 = "?b0\<lparr>rb_index := Some (MutableIndex ?A0 Map.empty)\<rparr>"
  have nb: "newBlock entry file =
      (case ReplayIndex ?b0 of
         (Some e, _) \<Rightarrow> Inl e
       | (None, block) \<Rightarrow>
           (case ReplayDelta block of (Some e, _) \<Rightarrow> Inl e | (None, block) \<Rightarrow> Inr block))"
    using ap sk ts by (simp add: newBlock_def HasPK_def Let_def)
  have ks: "map (\<lambda>r. map (\<lambda>i. nd_data (newNode file) i ! r) idxs) [0 ..< nd_rows (newNode file)] = ?ks"
    by (simp add: newNode_def disk_key_def)
  have ri: "ReplayIndex ?b0 = (None, ?b1)"
  proof -
    have "ReplayIndex ?b0 =
           (None, ?b0\<lparr>rb_index := Some (MutableIndex
              (upsert_keys Map.empty
                 (map (\<lambda>r. map (\<lambda>i. nd_data (newNode file) i ! r) idxs)
                    [0 ..< nd_rows (newNode file)]) 0)
              Map.empty)\<rparr>)"
      by (rule ReplayIndex_appendable [where idxs = idxs])
         (use ap sk len in \<open>simp_all add: newNode_def NewMutableIndex_def\<close>)
    then show ?thesis unfolding ks .
  qed
  have A0: "\<And>k p. ?A0 k = Some p \<longleftrightarrow>
              p < ?n \<and> ?key p = k \<and> (\<forall>j. p < j \<and> j < ?n \<longrightarrow> ?key j \<noteq> k)"
    unfolding upsert_keys_empty by auto
  have cons: "\<forall>k p. ?A0 k = Some p \<longrightarrow> compound_key (newNode file) idxs p = Some k"
    using A0 compound_key_disk [OF len] by auto
  have rng': "\<forall>r \<in> set (case dmask of None \<Rightarrow> [] | Some d \<Rightarrow> d).
                compound_key (newNode file) idxs r \<noteq> None"
    using rng dels compound_key_disk [OF len] by auto
  have ups': "\<forall>ups. LoadUpdates (rb_file ?b1) = Some ups \<longrightarrow>
                (\<forall>(c, m) \<in> set ups. c < length (columns (vb_mvcc ?b1)))"
    using ups by (simp add: SetMaxVisible_def NewMVCCHandle_def)
  have "\<exists>blk' act' tomb'.
           ReplayDelta ?b1 = (None, blk') \<and>
           vb_meta blk' = vb_meta ?b1 \<and> vb_node blk' = vb_node ?b1 \<and>
           maxVisible (vb_mvcc blk') = maxVisible (vb_mvcc ?b1) \<and>
           rb_ckpTs blk' = rb_ckpTs ?b1 \<and>
           rb_index blk' = Some (MutableIndex act' tomb') \<and>
           (\<forall>k p. act' k = Some p \<longleftrightarrow>
                   ?A0 k = Some p \<and> p \<notin> set (case dmask of None \<Rightarrow> [] | Some d \<Rightarrow> d)) \<and>
           (\<forall>d. dmask = Some d \<longrightarrow>
                \<lparr>dn_startTs = rb_ckpTs ?b1, dn_commitTs = Some (rb_ckpTs ?b1), dn_rows = d\<rparr>
                  \<in> set (deletes (vb_mvcc blk')))"
    by (rule ReplayDelta_appendable [where idxs = idxs and nd = "newNode file", OF _ _ _ _ ups' _ cons rng'])
       (use ap sk ld in simp_all)
  then obtain blk act tomb where
    rd: "ReplayDelta ?b1 = (None, blk)"
    and mv: "maxVisible (vb_mvcc blk) = maxVisible (vb_mvcc ?b1)"
    and ck: "rb_ckpTs blk = rb_ckpTs ?b1"
    and ix: "rb_index blk = Some (MutableIndex act tomb)"
    and act: "\<forall>k p. act k = Some p \<longleftrightarrow> ?A0 k = Some p \<and> p \<notin> set dels"
    and dn: "\<forall>d. dmask = Some d \<longrightarrow>
                \<lparr>dn_startTs = rb_ckpTs ?b1, dn_commitTs = Some (rb_ckpTs ?b1), dn_rows = d\<rparr>
                  \<in> set (deletes (vb_mvcc blk))"
    unfolding dels by blast
  have res: "newBlock entry file = Inr blk"
    unfolding nb ri using rd by simp
  have mv': "maxVisible (vb_mvcc blk) = ReadTS file"
    using mv by (simp add: SetMaxVisible_def)
  have ck': "rb_ckpTs blk = ReadTS file" using ck by simp
  have live: "\<forall>r. r < ?n \<and> r \<notin> set dels \<longrightarrow> act (?key r) = Some r"
  proof (intro allI impI)
    fix r assume r: "r < ?n \<and> r \<notin> set dels"
    have "\<forall>j. r < j \<and> j < ?n \<longrightarrow> ?key j \<noteq> ?key r"
      using uniq r by metis
    with r have "?A0 (?key r) = Some r" using A0 by simp
    with r act show "act (?key r) = Some r" by simp
  qed
  have dom: "dom act = {?key r | r. r < ?n \<and> r \<notin> set dels}"
  proof (intro set_eqI iffI)
    fix k assume "k \<in> dom act"
    then obtain p where "act k = Some p" by auto
    with act A0 have "p < ?n \<and> ?key p = k \<and> p \<notin> set dels" by auto
    then show "k \<in> {?key r | r. r < ?n \<and> r \<notin> set dels}" by auto
  next
    fix k assume "k \<in> {?key r | r. r < ?n \<and> r \<notin> set dels}"
    then obtain r where "k = ?key r" "r < ?n \<and> r \<notin> set dels" by auto
    with live show "k \<in> dom act" by auto
  qed
  have gone: "\<forall>r \<in> set dels. \<forall>txn c. ReadTS file \<le> GetStartTS txn \<longrightarrow>
               GetValue blk txn r c = (None, Some ErrNotFound)"
  proof (intro ballI allI impI)
    fix r and txn :: Txn and c
    assume r: "r \<in> set dels" and t: "ReadTS file \<le> GetStartTS txn"
    from r dels obtain d where d: "dmask = Some d" "r \<in> set d" by (cases dmask) auto
    with dn have "\<lparr>dn_startTs = ReadTS file, dn_commitTs = Some (ReadTS file), dn_rows = d\<rparr>
                  \<in> set (deletes (vb_mvcc blk))" by simp
    with d(2) t have "deleted_at (vb_mvcc blk) r (GetStartTS txn)"
      unfolding deleted_at_def by force
    then show "GetValue blk txn r c = (None, Some ErrNotFound)" by (rule GetValue_deleted)
  qed
  from res mv' ck' ix dom live gone show ?thesis by blast
qed


lemma ReplayDelta_nopk:
  assumes ap: "IsAppendable (vb_meta blk)"
    and sk: "SortKey (GetSchema (vb_meta blk)) = None"
    and nd: "vb_node blk = Some nd"
    and ups: "\<forall>ups. LoadUpdates (rb_file blk) = Some ups \<longrightarrow>
                (\<forall>(c, m) \<in> set ups. c < length (columns (vb_mvcc blk)))"
    and ld: "LoadDeletes (rb_file blk) = (dmask, None)"
  shows "\<exists>blk'.
           ReplayDelta blk = (None, blk') \<and>
           maxVisible (vb_mvcc blk') = maxVisible (vb_mvcc blk) \<and>
           rb_ckpTs blk' = rb_ckpTs blk \<and>
           rb_index blk' = rb_index blk \<and>
           (\<forall>d. dmask = Some d \<longrightarrow>
                \<lparr>dn_startTs = rb_ckpTs blk, dn_commitTs = Some (rb_ckpTs blk), dn_rows = d\<rparr>
                  \<in> set (deletes (vb_mvcc blk')))"
proof -
  let ?a = "blk\<lparr>vb_mvcc := OnReplayAppendNode (vb_mvcc blk)
                               (NewCommittedAppendNode (rb_ckpTs blk) (nd_rows nd))\<rparr>"
  have "\<exists>cols. (case LoadUpdates (rb_file ?a) of None \<Rightarrow> (None, ?a)
                 | Some ups \<Rightarrow> replay_updates ?a ups) =
                (None, ?a\<lparr>vb_mvcc := (vb_mvcc ?a)\<lparr>columns := cols\<rparr>\<rparr>)"
  proof (cases "LoadUpdates (rb_file blk)")
    case None
    have "(case LoadUpdates (rb_file ?a) of None \<Rightarrow> (None, ?a)
                 | Some ups \<Rightarrow> replay_updates ?a ups) =
                (None, ?a\<lparr>vb_mvcc := (vb_mvcc ?a)\<lparr>columns := columns (vb_mvcc ?a)\<rparr>\<rparr>)"
      using None by simp
    then show ?thesis by (rule exI)
  next
    case (Some u)
    with ups have "\<forall>(c, m) \<in> set u. c < length (columns (vb_mvcc ?a))"
      by (simp add: OnReplayAppendNode_def)
    from replay_updates_columns [OF this] Some show ?thesis by auto
  qed
  then obtain cols where
    u: "(case LoadUpdates (rb_file ?a) of None \<Rightarrow> (None, ?a)
         | Some ups \<Rightarrow> replay_updates ?a ups) =
        (None, ?a\<lparr>vb_mvcc := (vb_mvcc ?a)\<lparr>columns := cols\<rparr>\<rparr>)"
    by blast
  let ?u = "?a\<lparr>vb_mvcc := (vb_mvcc ?a)\<lparr>columns := cols\<rparr>\<rparr>"
  have step: "ReplayDelta blk =
     (case dmask of None \<Rightarrow> (None, ?u)
      | Some rows \<Rightarrow> OnReplayDelete ?u ((NewMergedNode (rb_ckpTs ?u))\<lparr>dn_rows := rows\<rparr>))"
    using ap nd u ld by (simp add: ReplayDelta_def Let_def split: option.splits)
  show ?thesis
  proof (cases dmask)
    case None
    with step have "ReplayDelta blk = (None, ?u)" by simp
    moreover have "maxVisible (vb_mvcc ?u) = maxVisible (vb_mvcc blk)"
      by (simp add: OnReplayAppendNode_def)
    moreover have "rb_ckpTs ?u = rb_ckpTs blk" "rb_index ?u = rb_index blk" by simp_all
    ultimately show ?thesis using None by blast
  next
    case (Some d)
    let ?n = "(NewMergedNode (rb_ckpTs blk))\<lparr>dn_rows := d\<rparr>"
    let ?d = "?u\<lparr>vb_mvcc := OnReplayDeleteNode (vb_mvcc ?u) ?n\<rparr>"
    let ?r = "?d\<lparr>rb_removedRows := rb_removedRows ?d + length d\<rparr>"
    have rd: "ReplayDelta blk = (None, ?r)"
      using step Some ap sk
      by (simp add: OnReplayDelete_def OnApply_def NewMergedNode_def ABlkApplyDelete_def
          HasPK_def)
    have mem: "\<forall>d'. dmask = Some d' \<longrightarrow>
                \<lparr>dn_startTs = rb_ckpTs blk, dn_commitTs = Some (rb_ckpTs blk), dn_rows = d'\<rparr>
                  \<in> set (deletes (vb_mvcc ?r))"
      using Some by (simp add: OnReplayDeleteNode_def NewMergedNode_def)
    have mv: "maxVisible (vb_mvcc ?r) = maxVisible (vb_mvcc blk)"
      by (simp add: OnReplayDeleteNode_def OnReplayAppendNode_def)
    have same: "rb_ckpTs ?r = rb_ckpTs blk" "rb_index ?r = rb_index blk" by simp_all
    from rd mv same mem show ?thesis by blast
  qed
qed

lemma newBlock_replay_nopk:
  assumes ap: "IsAppendable entry"
    and sk: "SortKey (GetSchema entry) = None"
    and ts: "0 < ReadTS file"
    and ups: "\<forall>ups. LoadUpdates file = Some ups \<longrightarrow>
                (\<forall>(c, m) \<in> set ups. c < length (ColDefs (GetSchema entry)))"
    and ld: "LoadDeletes file = (dmask, None)"
    and dels: "dels = (case dmask of None \<Rightarrow> [] | Some d \<Rightarrow> d)"
  shows "\<exists>blk.
           newBlock entry file = Inr blk \<and>
           maxVisible (vb_mvcc blk) = ReadTS file \<and>
           rb_ckpTs blk = ReadTS file \<and>
           rb_index blk = None \<and>
           (\<forall>r \<in> set dels. \<forall>txn c. ReadTS file \<le> GetStartTS txn \<longrightarrow>
               GetValue blk txn r c = (None, Some ErrNotFound))"
proof -
  let ?b0 = "\<lparr>vb_meta = entry, vb_node = Some (newNode file),
              colFile = (\<lambda>c. (fileColumn file c, None)),
              vb_mvcc = SetMaxVisible (NewMVCCHandle entry) (ReadTS file),
              rb_file = file, rb_index = (None :: 'a list Index option),
              rb_ckpTs = ReadTS file, rb_removedRows = 0\<rparr>"
  have nb: "newBlock entry file =
      (case ReplayIndex ?b0 of
         (Some e, _) \<Rightarrow> Inl e
       | (None, block) \<Rightarrow>
           (case ReplayDelta block of (Some e, _) \<Rightarrow> Inl e | (None, block) \<Rightarrow> Inr block))"
    using ap sk ts by (simp add: newBlock_def HasPK_def Let_def)
  have ri: "ReplayIndex ?b0 = (None, ?b0)"
    using ap sk by (simp add: ReplayIndex_def HasPK_def)
  have ups': "\<forall>ups. LoadUpdates (rb_file ?b0) = Some ups \<longrightarrow>
                (\<forall>(c, m) \<in> set ups. c < length (columns (vb_mvcc ?b0)))"
    using ups by (simp add: SetMaxVisible_def NewMVCCHandle_def)
  have "\<exists>blk'.
           ReplayDelta ?b0 = (None, blk') \<and>
           maxVisible (vb_mvcc blk') = maxVisible (vb_mvcc ?b0) \<and>
           rb_ckpTs blk' = rb_ckpTs ?b0 \<and>
           rb_index blk' = rb_index ?b0 \<and>
           (\<forall>d. dmask = Some d \<longrightarrow>
                \<lparr>dn_startTs = rb_ckpTs ?b0, dn_commitTs = Some (rb_ckpTs ?b0), dn_rows = d\<rparr>
                  \<in> set (deletes (vb_mvcc blk')))"
    by (rule ReplayDelta_nopk [where nd = "newNode file", OF _ _ _ ups'])
       (use ap sk ld in simp_all)
  then obtain blk where
    rd: "ReplayDelta ?b0 = (None, blk)"
    and mv: "maxVisible (vb_mvcc blk) = maxVisible (vb_mvcc ?b0)"
    and ck: "rb_ckpTs blk = rb_ckpTs ?b0"
    and ix: "rb_index blk = rb_index ?b0"
    and dn: "\<forall>d. dmask = Some d \<longrightarrow>
                \<lparr>dn_startTs = rb_ckpTs ?b0, dn_commitTs = Some (rb_ckpTs ?b0), dn_rows = d\<rparr>
                  \<in> set (deletes (vb_mvcc blk))"
    by blast
  have res: "newBlock entry file = Inr blk"
    unfolding nb ri using rd by simp
  have mv': "maxVisible (vb_mvcc blk) = ReadTS file"
    using mv by (simp add: SetMaxVisible_def)
  have ck': "rb_ckpTs blk = ReadTS file" using ck by simp
  have ix': "rb_index blk = None" using ix by simp
  have gone: "\<forall>r \<in> set dels. \<forall>txn c. ReadTS file \<le> GetStartTS txn \<longrightarrow>
               GetValue blk txn r c = (None, Some ErrNotFound)"
  proof (intro ballI allI impI)
    fix r and txn :: Txn and c
    assume r: "r \<in> set dels" and t: "ReadTS file \<le> GetStartTS txn"
    from r dels obtain d where d: "dmask = Some d" "r \<in> set d" by (cases dmask) auto
    with dn have "\<lparr>dn_startTs = ReadTS file, dn_commitTs = Some (ReadTS file), dn_rows = d\<rparr>
                  \<in> set (deletes (vb_mvcc blk))" by simp
    with d(2) t have "deleted_at (vb_mvcc blk) r (GetStartTS txn)"
      unfolding deleted_at_def by force
    then show "GetValue blk txn r c = (None, Some ErrNotFound)" by (rule GetValue_deleted)
  qed
  from res mv' ck' ix' gone show ?thesis by blast
qed

text \<open>
  C3. Let an appendable block be reopened from a block file whose commit timestamp is
  above 0, whose updates name columns of the schema, whose delete mask is read without
  error and names rows of the file and, if the schema has a sort key, whose sort-key
  columns hold every row and whose rows respect the uniqueness of the primary key (of
  two rows with the same key the earlier one is deleted). Then \<open>newBlock\<close> returns a
  block; its \<open>maxVisible\<close> and its checkpoint timestamp are the timestamp of the file;
  the active keys of its index are exactly the keys of the rows that are not deleted,
  each at its row (the key of a deleted row is active only if a row that is not
  deleted has it; without a sort key there is no index); and \<open>GetValue\<close> on a deleted
  row returns \<open>ErrNotFound\<close> for every transaction that starts at or after the
  checkpoint timestamp.
\<close>

theorem newBlock_replay:
  assumes ap: "IsAppendable entry"
    and ts: "0 < ReadTS file"
    and ups: "\<forall>ups. LoadUpdates file = Some ups \<longrightarrow>
                (\<forall>(c, m) \<in> set ups. c < length (ColDefs (GetSchema entry)))"
    and ld: "LoadDeletes file = (dmask, None)"
    and dels: "dels = (case dmask of None \<Rightarrow> [] | Some d \<Rightarrow> d)"
    and rng: "\<forall>r \<in> set dels. r < ReadRows file"
    and pk: "\<forall>idxs. SortKey (GetSchema entry) = Some idxs \<longrightarrow>
               idxs \<noteq> [] \<and>
               (\<forall>i \<in> set idxs. length (fileColumn file i) = ReadRows file) \<and>
               (\<forall>i j. i < j \<and> j < ReadRows file \<and>
                      disk_key file idxs i = disk_key file idxs j \<longrightarrow> i \<in> set dels)"
  shows "\<exists>blk.
           newBlock entry file = Inr blk \<and>
           maxVisible (vb_mvcc blk) = ReadTS file \<and>
           rb_ckpTs blk = ReadTS file \<and>
           (case SortKey (GetSchema entry) of
              None \<Rightarrow> rb_index blk = None
            | Some idxs \<Rightarrow>
                (\<exists>act tomb.
                   rb_index blk = Some (MutableIndex act tomb) \<and>
                   dom act = {disk_key file idxs r | r. r < ReadRows file \<and> r \<notin> set dels} \<and>
                   (\<forall>r. r < ReadRows file \<and> r \<notin> set dels \<longrightarrow>
                        act (disk_key file idxs r) = Some r))) \<and>
           (\<forall>r \<in> set dels. \<forall>txn c. ReadTS file \<le> GetStartTS txn \<longrightarrow>
               GetValue blk txn r c = (None, Some ErrNotFound))"
proof (cases "SortKey (GetSchema entry)")
  case None
  from newBlock_replay_nopk [OF ap None ts ups ld dels] None show ?thesis by auto
next
  case (Some idxs)
  with pk have p: "idxs \<noteq> []"
    "\<forall>i \<in> set idxs. length (fileColumn file i) = ReadRows file"
    "\<forall>i j. i < j \<and> j < ReadRows file \<and>
           disk_key file idxs i = disk_key file idxs j \<longrightarrow> i \<in> set dels"
    by blast+
  from newBlock_replay_pk [OF ap Some p(1) ts p(2) ups ld dels rng p(3)]
  obtain blk act tomb where
    "newBlock entry file = Inr blk" "maxVisible (vb_mvcc blk) = ReadTS file"
    "rb_ckpTs blk = ReadTS file" "rb_index blk = Some (MutableIndex act tomb)"
    "dom act = {disk_key file idxs r | r. r < ReadRows file \<and> r \<notin> set dels}"
    "\<forall>r. r < ReadRows file \<and> r \<notin> set dels \<longrightarrow> act (disk_key file idxs r) = Some r"
    "\<forall>r \<in> set dels. \<forall>txn c. ReadTS file \<le> GetStartTS txn \<longrightarrow>
               GetValue blk txn r c = (None, Some ErrNotFound)"
    by blast
  with Some show ?thesis by auto
qed

lemma s6_keys: "disk_key s6_file [Suc 0] r = [[1, 2, 3] ! r]"
  by (simp add: disk_key_def s6_file_def)

lemma less_3_cases: "r < (3 :: nat) \<longleftrightarrow> r = 0 \<or> r = Suc 0 \<or> r = 2"
  by auto

theorem newBlock_replay_witness:
  "\<exists>blk act tomb.
     newBlock s6_entry s6_file = Inr blk \<and>
     maxVisible (vb_mvcc blk) = 300 \<and>
     rb_index blk = Some (MutableIndex act tomb) \<and>
     dom act = {[1], [3]} \<and> act [1] = Some 0 \<and> act [3] = Some 2 \<and>
     GetValue blk \<lparr>GetStartTS = 300\<rparr> 1 0 = (None, Some ErrNotFound) \<and>
     GetValue blk \<lparr>GetStartTS = 450\<rparr> 1 0 = (None, Some ErrNotFound)"
proof -
  have ap: "IsAppendable s6_entry" by (simp add: s6_entry_def)
  have sk: "SortKey (GetSchema s6_entry) = Some [1]" "[1 :: nat] \<noteq> []"
    by (simp_all add: s6_entry_def)
  have ts: "0 < ReadTS s6_file" by (simp add: s6_file_def)
  have n: "ReadRows s6_file = 3" by (simp add: s6_file_def)
  have len: "\<forall>i \<in> set [1]. length (fileColumn s6_file i) = ReadRows s6_file"
    by (simp add: s6_file_def)
  have ups: "\<forall>ups. LoadUpdates s6_file = Some ups \<longrightarrow>
                (\<forall>(c, m) \<in> set ups. c < length (ColDefs (GetSchema s6_entry)))"
    by (auto simp: s6_file_def s6_entry_def)
  have ld: "LoadDeletes s6_file = (Some [1], None)" by (simp add: s6_file_def)
  have dels: "[1 :: nat] = (case Some [1] of None \<Rightarrow> [] | Some d \<Rightarrow> d)" by simp
  have rng: "\<forall>r \<in> set [1 :: nat]. r < ReadRows s6_file" by (simp add: n)
  have uniq: "\<forall>i j. i < j \<and> j < ReadRows s6_file \<and>
                 disk_key s6_file [1] i = disk_key s6_file [1] j \<longrightarrow> i \<in> set [1]"
    unfolding n by (auto simp: less_3_cases less_2_cases_iff s6_keys)
  have pk: "\<forall>idxs. SortKey (GetSchema s6_entry) = Some idxs \<longrightarrow>
               idxs \<noteq> [] \<and>
               (\<forall>i \<in> set idxs. length (fileColumn s6_file i) = ReadRows s6_file) \<and>
               (\<forall>i j. i < j \<and> j < ReadRows s6_file \<and>
                      disk_key s6_file idxs i = disk_key s6_file idxs j \<longrightarrow> i \<in> set [1])"
    using sk len uniq by simp
  from newBlock_replay [OF ap ts ups ld dels rng pk] sk(1)
  obtain blk act tomb where
    r: "newBlock s6_entry s6_file = Inr blk"
      "maxVisible (vb_mvcc blk) = ReadTS s6_file"
      "rb_index blk = Some (MutableIndex act tomb)"
      "dom act = {disk_key s6_file [1] r | r. r < ReadRows s6_file \<and> r \<notin> set [1]}"
      "\<forall>r. r < ReadRows s6_file \<and> r \<notin> set [1] \<longrightarrow> act (disk_key s6_file [1] r) = Some r"
      "\<forall>r \<in> set [1]. \<forall>txn c. ReadTS s6_file \<le> GetStartTS txn \<longrightarrow>
               GetValue blk txn r c = (None, Some ErrNotFound)"
    by auto
  have live: "{r. r < (3 :: nat) \<and> r \<notin> set [1]} = {0, 2}"
    by (auto simp: less_3_cases)
  have "{disk_key s6_file [1] r | r. r < ReadRows s6_file \<and> r \<notin> set [1]} =
          disk_key s6_file [1] ` {r. r < 3 \<and> r \<notin> set [1]}"
    unfolding n by (rule setcompr_eq_image)
  also have "\<dots> = {[1], [3]}"
    unfolding live by (simp add: s6_keys)
  finally have "{disk_key s6_file [1] r | r. r < ReadRows s6_file \<and> r \<notin> set [1]} = {[1], [3]}" .
  with r(4) have d: "dom act = {[1], [3]}" by simp
  from r(5) [rule_format, of 0] r(5) [rule_format, of 2]
  have a: "act [1] = Some 0" "act [3] = Some 2" by (simp_all add: n s6_keys)
  from r(6) [rule_format, of 1 "\<lparr>GetStartTS = 300\<rparr>" 0] r(6) [rule_format, of 1 "\<lparr>GetStartTS = 450\<rparr>" 0]
  have g: "GetValue blk \<lparr>GetStartTS = 300\<rparr> 1 0 = (None, Some ErrNotFound)"
    "GetValue blk \<lparr>GetStartTS = 450\<rparr> 1 0 = (None, Some ErrNotFound)"
    by (simp_all add: s6_file_def)
  have "maxVisible (vb_mvcc blk) = 300" using r(2) by (simp add: s6_file_def)
  with r(1,3) d a g show ?thesis by blast
qed

end
